theory Spec2Isabelle
  imports Main "HOL-Library.Word"
begin

section \<open>The type \<open>real_type\<close>: IEEE 754 binary64 values\<close>

text \<open>
  The source declares \<^verbatim>\<open>typedef double real_type;\<close>. A double is modelled by its
  IEEE 754 class:
  \<^item> \<open>Finite s n\<close> is the finite value \<open>(-1)^s * n * 2^-1074\<close>: the magnitude is counted in
    units of the smallest subnormal, so that every finite double (zero, subnormal or normal)
    is an integer \<open>n\<close>. \<open>1.0\<close> is \<open>Finite False (2^1074)\<close>; both zeros exist
    (\<open>Finite False 0\<close> and \<open>Finite True 0\<close>);
  \<^item> \<open>Infinity s\<close> is the infinity of sign \<open>s\<close>;
  \<^item> \<open>NaN\<close> stands for every not-a-number (payloads are not observed by the program).
  A magnitude \<open>n\<close> is that of a double when it has at most 53 significant bits and is
  below \<open>2^2098\<close> (that is \<open>2^1024\<close> in these units).
\<close>

datatype real_type = Finite bool nat | Infinity bool | NaN

fun bitlen :: "nat \<Rightarrow> nat" where
  "bitlen n = (if n = 0 then 0 else Suc (bitlen (n div 2)))"

declare bitlen.simps [simp del]

definition representable :: "nat \<Rightarrow> bool" where
  "representable n \<longleftrightarrow> n < 2 ^ 2098 \<and> 2 ^ (bitlen n - 53) dvd n"

fun is_double :: "real_type \<Rightarrow> bool" where
  "is_double (Finite s n) = representable n"
| "is_double (Infinity s) = True"
| "is_double NaN = True"

text \<open>The signed value of a finite double, in units of \<open>2^-1074\<close>.\<close>

definition sval :: "bool \<Rightarrow> nat \<Rightarrow> int" where
  "sval s n = (if s then - int n else int n)"

subsection \<open>Rounding to nearest, ties to even\<close>

text \<open>\<open>rne_div a d\<close> is the integer nearest to \<open>a / d\<close>, the even one at a tie.\<close>

definition rne_div :: "nat \<Rightarrow> nat \<Rightarrow> nat" where
  "rne_div a d =
     (let q = a div d; r = a mod d
      in if d < 2 * r \<or> (2 * r = d \<and> odd q) then q + 1 else q)"

text \<open>
  \<open>round_mag a b\<close> rounds the magnitude \<open>a / b\<close> (in units of \<open>2^-1074\<close>) to the nearest
  magnitude with at most 53 significant bits: with \<open>t = round_shift a b\<close> the number of
  bits of the integer part beyond 53 (\<open>0\<close> when there are none, which covers the
  subnormals), the result is a multiple of \<open>2^t\<close>.
\<close>

definition round_shift :: "nat \<Rightarrow> nat \<Rightarrow> nat" where
  "round_shift a b = (let l = bitlen (a div b) in if 53 \<le> l then l - 53 else 0)"

definition round_mag :: "nat \<Rightarrow> nat \<Rightarrow> nat" where
  "round_mag a b = (let t = round_shift a b in rne_div a (b * 2 ^ t) * 2 ^ t)"

text \<open>The rounded result with its sign; a magnitude of \<open>2^1024\<close> or more overflows.\<close>

definition fround :: "bool \<Rightarrow> nat \<Rightarrow> nat \<Rightarrow> real_type" where
  "fround s a b = (let m = round_mag a b in if 2 ^ 2098 \<le> m then Infinity s else Finite s m)"

subsection \<open>The operations the program uses\<close>

fun isfinite :: "real_type \<Rightarrow> bool" where
  "isfinite (Finite s n) = True"
| "isfinite (Infinity s) = False"
| "isfinite NaN = False"

fun fabs :: "real_type \<Rightarrow> real_type" where
  "fabs (Finite s n) = Finite False n"
| "fabs (Infinity s) = Infinity False"
| "fabs NaN = NaN"

fun fneg :: "real_type \<Rightarrow> real_type" where
  "fneg (Finite s n) = Finite (\<not> s) n"
| "fneg (Infinity s) = Infinity (\<not> s)"
| "fneg NaN = NaN"

text \<open>\<open>x + y\<close>: an exact zero sum is \<open>-0\<close> only when both operands are negative.\<close>

fun fadd :: "real_type \<Rightarrow> real_type \<Rightarrow> real_type" where
  "fadd (Finite s n) (Finite s' n') =
     (let r = sval s n + sval s' n'
      in if r = 0 then Finite (s \<and> s') 0 else fround (r < 0) (nat \<bar>r\<bar>) 1)"
| "fadd (Finite s n) (Infinity s') = Infinity s'"
| "fadd (Infinity s) (Finite s' n') = Infinity s"
| "fadd (Infinity s) (Infinity s') = (if s = s' then Infinity s else NaN)"
| "fadd NaN y = NaN"
| "fadd x NaN = NaN"

text \<open>\<open>x - y\<close> is \<open>x + (-y)\<close>.\<close>

definition fsub :: "real_type \<Rightarrow> real_type \<Rightarrow> real_type" where
  "fsub x y = fadd x (fneg y)"

text \<open>\<open>x * y\<close>: the exact product of \<open>n\<close> and \<open>n'\<close> units is \<open>n * n' / 2^1074\<close> units.\<close>

fun fmul :: "real_type \<Rightarrow> real_type \<Rightarrow> real_type" where
  "fmul (Finite s n) (Finite s' n') = fround (s \<noteq> s') (n * n') (2 ^ 1074)"
| "fmul (Finite s n) (Infinity s') = (if n = 0 then NaN else Infinity (s \<noteq> s'))"
| "fmul (Infinity s) (Finite s' n') = (if n' = 0 then NaN else Infinity (s \<noteq> s'))"
| "fmul (Infinity s) (Infinity s') = Infinity (s \<noteq> s')"
| "fmul NaN y = NaN"
| "fmul x NaN = NaN"

text \<open>The comparisons: every comparison with a NaN is false, and \<open>-0 == +0\<close>.\<close>

fun feq :: "real_type \<Rightarrow> real_type \<Rightarrow> bool" where
  "feq (Finite s n) (Finite s' n') = (sval s n = sval s' n')"
| "feq (Infinity s) (Infinity s') = (s = s')"
| "feq (Finite s n) (Infinity s') = False"
| "feq (Infinity s) (Finite s' n') = False"
| "feq NaN y = False"
| "feq x NaN = False"

fun fle :: "real_type \<Rightarrow> real_type \<Rightarrow> bool" where
  "fle (Finite s n) (Finite s' n') = (sval s n \<le> sval s' n')"
| "fle (Finite s n) (Infinity s') = (\<not> s')"
| "fle (Infinity s) (Finite s' n') = s"
| "fle (Infinity s) (Infinity s') = (s \<or> \<not> s')"
| "fle NaN y = False"
| "fle x NaN = False"

definition fge :: "real_type \<Rightarrow> real_type \<Rightarrow> bool" where
  "fge x y = fle y x"

text \<open>\<open>x > y\<close> and \<open>max\<close>, used to state properties only.\<close>

definition fgt :: "real_type \<Rightarrow> real_type \<Rightarrow> bool" where
  "fgt x y \<longleftrightarrow> fle y x \<and> \<not> feq y x"

definition fmax :: "real_type \<Rightarrow> real_type \<Rightarrow> real_type" where
  "fmax x y = (if fle x y then y else x)"

text \<open>A decimal literal \<open>p / q\<close> and the constants of the program.\<close>

definition literal :: "nat \<Rightarrow> nat \<Rightarrow> real_type" where
  "literal p q = fround False (p * 2 ^ 1074) q"

definition zero :: real_type where
  "zero = Finite False 0"

definition one :: real_type where
  "one = Finite False (2 ^ 1074)"

section \<open>The tolerance comparator \<open>isClose\<close>\<close>

text \<open>
  \<^verbatim>\<open>assert\<close> aborts the process when its condition is false; the two assertions of
  \<^verbatim>\<open>isClose\<close> are the \<open>Inl\<close> results. Otherwise the C \<^verbatim>\<open>int\<close> returned is \<open>1\<close> or
  \<open>0\<close>.
\<close>

datatype abort = Assert_rel_tol | Assert_abs_tol

definition isClose :: "real_type \<Rightarrow> real_type \<Rightarrow> real_type \<Rightarrow> real_type \<Rightarrow> abort + int" where
  "isClose x y rel_tol abs_tol =
     (if \<not> fge rel_tol zero then Inl Assert_rel_tol
      else if \<not> fge abs_tol zero then Inl Assert_abs_tol
      else if isfinite x \<and> isfinite y then
        (if feq x y then Inr 1
         else
           (let abs_diff = fabs (fsub x y)
            in Inr (of_bool (fle abs_diff abs_tol
                 \<or> fle abs_diff (fmul rel_tol (fabs x))
                 \<or> fle abs_diff (fmul rel_tol (fabs y))))))
      else Inr (of_bool (feq x y)))"

section \<open>The kernel \<open>vectorAddition\<close>\<close>

text \<open>
  Device global memory is a store of \<open>real_type\<close> cells. A pointer
  \<^verbatim>\<open>real_type *\<close> is the address of a cell, counted in cells, so that \<^verbatim>\<open>p [i]\<close> is the
  cell \<open>p + i\<close>. A lane of the kernel returns the accesses it makes, in order, and the
  memory it leaves.
\<close>

type_synonym addr = nat

type_synonym memory = "addr \<Rightarrow> real_type"

datatype access = Read addr | Write addr

fun access_addr :: "access \<Rightarrow> addr" where
  "access_addr (Read p) = p"
| "access_addr (Write p) = p"

text \<open>
  The built-in variables of a lane: \<^verbatim>\<open>blockDim.x\<close>, \<^verbatim>\<open>blockIdx.x\<close> and \<^verbatim>\<open>threadIdx.x\<close>
  are \<^verbatim>\<open>unsigned int\<close>, 32 bits wide.
\<close>

record lane =
  blockDim_x :: "32 word"
  blockIdx_x :: "32 word"
  threadIdx_x :: "32 word"

text \<open>
  \<^verbatim>\<open>const unsigned thread_id = blockDim.x * blockIdx.x + threadIdx.x;\<close> is computed in
  32 bits and wraps around.
\<close>

definition thread_id :: "lane \<Rightarrow> 32 word" where
  "thread_id l = blockDim_x l * blockIdx_x l + threadIdx_x l"

text \<open>
  One lane of the kernel. \<^verbatim>\<open>count\<close> is a \<^verbatim>\<open>size_t\<close> (64 bits); the comparison
  \<^verbatim>\<open>thread_id < count\<close> converts \<^verbatim>\<open>thread_id\<close> to \<^verbatim>\<open>size_t\<close>.
\<close>

definition vectorAddition ::
  "addr \<Rightarrow> addr \<Rightarrow> addr \<Rightarrow> 64 word \<Rightarrow> lane \<Rightarrow> memory \<Rightarrow> access list \<times> memory" where
  "vectorAddition a b c count l mem =
     (let i = unat (thread_id l)
      in if (ucast (thread_id l) :: 64 word) < count
         then ([Read (a + i), Read (b + i), Write (c + i)],
               mem (c + i := fadd (mem (a + i)) (mem (b + i))))
         else ([], mem))"

text \<open>
  Two buffers of \<open>n\<close> cells at \<open>p\<close> and \<open>q\<close> that do not overlap. \<^verbatim>\<open>__restrict__\<close> on the
  three parameters promises that the \<open>count\<close> cells written through \<open>c\<close> are not the cells
  read through \<open>a\<close> or \<open>b\<close>.
\<close>

definition apart :: "addr \<Rightarrow> addr \<Rightarrow> nat \<Rightarrow> bool" where
  "apart p q n \<longleftrightarrow> p + n \<le> q \<or> q + n \<le> p"

definition restrict :: "addr \<Rightarrow> addr \<Rightarrow> addr \<Rightarrow> 64 word \<Rightarrow> bool" where
  "restrict a b c count \<longleftrightarrow> apart c a (unat count) \<and> apart c b (unat count)"

subsection \<open>A launch\<close>

text \<open>
  \<^verbatim>\<open>kernel <<<blocks, threads>>> (...)\<close> runs one lane for each block index below \<open>blocks\<close>
  and each thread index below \<open>threads\<close>, with \<^verbatim>\<open>blockDim.x = threads\<close>.
\<close>

definition grid :: "32 word \<Rightarrow> 32 word \<Rightarrow> lane list" where
  "grid blocks threads =
     concat (map (\<lambda>b. map (\<lambda>t. \<lparr>blockDim_x = threads, blockIdx_x = of_nat b, threadIdx_x = of_nat t\<rparr>)
                           [0 ..< unat threads])
                 [0 ..< unat blocks])"

text \<open>Running lanes one after the other, each on the memory the previous one left.\<close>

fun run_lanes ::
  "(lane \<Rightarrow> memory \<Rightarrow> access list \<times> memory) \<Rightarrow> lane list \<Rightarrow> memory \<Rightarrow> access list \<times> memory" where
  "run_lanes kern [] mem = ([], mem)"
| "run_lanes kern (l # ls) mem =
     (let (t1, mem1) = kern l mem;
          (t2, mem2) = run_lanes kern ls mem1
      in (t1 @ t2, mem2))"

text \<open>
  The order in which the lanes of a launch run is not fixed. It is a parameter \<open>order\<close>: the
  lanes of the grid run sorted by \<open>order\<close>, which reaches every permutation of the grid
  (\<open>launch_any_order\<close> below).
  (A lane is run as one step: the lanes of this kernel touch cells of their own only, so that
  finer interleavings give nothing new.)
\<close>

definition launch ::
  "(lane \<Rightarrow> nat) \<Rightarrow> 32 word \<Rightarrow> 32 word \<Rightarrow> (lane \<Rightarrow> memory \<Rightarrow> access list \<times> memory)
   \<Rightarrow> memory \<Rightarrow> access list \<times> memory" where
  "launch order blocks threads kern mem =
     run_lanes kern (sort_key order (grid blocks threads)) mem"


section \<open>The host program \<open>main\<close>\<close>

text \<open>The constants of \<^verbatim>\<open>main\<close>; a \<^verbatim>\<open>size_t\<close> has 64 bits, \<^verbatim>\<open>sizeof (real_type)\<close> is 8.\<close>

definition count :: "64 word" where
  "count = 65536"

definition bytes :: "64 word" where
  "bytes = count * 8"

definition threads_per_block :: "32 word" where
  "threads_per_block = 256"

text \<open>
  \<^verbatim>\<open>(count + threads_per_block - 1) / threads_per_block\<close> is computed in \<^verbatim>\<open>size_t\<close> and
  converted to \<^verbatim>\<open>unsigned\<close>.
\<close>

definition blocks_per_grid :: "32 word" where
  "blocks_per_grid = ucast ((count + ucast threads_per_block - 1) div ucast threads_per_block)"

text \<open>The two statuses of \<^verbatim>\<open>stdlib.h\<close>.\<close>

definition EXIT_SUCCESS :: int where
  "EXIT_SUCCESS = 0"

definition EXIT_FAILURE :: int where
  "EXIT_FAILURE = 1"

subsection \<open>The world outside the program\<close>

text \<open>
  The three vectors \<open>a\<close>, \<open>b\<close> and \<open>c\<close>; each has a host buffer (\<^verbatim>\<open>host_a\<close>, ...) and a device
  buffer (\<^verbatim>\<open>device_a\<close>, ...).
\<close>

datatype vector = A | B | C

text \<open>A \<^verbatim>\<open>cudaError_t\<close> is an error code; \<^verbatim>\<open>cudaSuccess\<close> is 0.\<close>

type_synonym cudaError_t = nat

definition cudaSuccess :: cudaError_t where
  "cudaSuccess = 0"

text \<open>
  What the C library, the CUDA runtime and the device answer is not decided by the program.
  A \<open>runtime\<close> fixes these answers for one run:
  \<^item> \<open>malloc_ok v\<close>: \<^verbatim>\<open>malloc\<close> for the host buffer of \<open>v\<close> returns a non-null pointer, and
    \<open>uninitialised v i\<close> is what cell \<open>i\<close> of the fresh buffer holds;
  \<^item> \<open>cudaMalloc_result v\<close>, \<open>device_ptr v\<close>: the status of \<^verbatim>\<open>cudaMalloc\<close> for the device buffer
    of \<open>v\<close> and the pointer it stores; \<open>device_memory\<close> is the device memory at that time;
  \<^item> \<open>cudaMemcpy_result v\<close>: the status of the \<^verbatim>\<open>cudaMemcpy\<close> of \<open>v\<close> (host to device for \<open>a\<close>
    and \<open>b\<close>, device to host for \<open>c\<close>);
  \<^item> \<open>kernel_result\<close>: what \<^verbatim>\<open>cudaGetLastError ()\<close> returns after the launch and the
    synchronisation; \<open>lane_order\<close>: the order in which the lanes ran;
  \<^item> \<open>cudaFree_result v\<close>: the status of \<^verbatim>\<open>cudaFree\<close> for the device buffer of \<open>v\<close>;
  \<^item> \<open>cudaGetErrorString\<close>, \<open>libm_sin\<close>, \<open>libm_cos\<close>: the library functions of these names;
  \<^item> \<open>printf_f d s x\<close>: the text \<^verbatim>\<open>printf\<close> writes for \<^verbatim>\<open>%.*f\<close> with precision \<open>d\<close> and value
    \<open>x\<close>, where \<open>s\<close> is the sign bit of \<open>x\<close> in case \<open>x\<close> is a NaN; \<open>DECIMAL_DIG\<close>: the macro of
    \<^verbatim>\<open>float.h\<close> (21 when it is not defined there);
  \<^item> \<open>nan_sign_expected i\<close>, \<open>nan_sign_actual i\<close>: the sign bits of the two values that the
    validation loop prints for index \<open>i\<close>, in case they are NaNs.
  A NaN has a sign bit, which \<^verbatim>\<open>printf\<close> shows (\<^verbatim>\<open>nan\<close> or \<^verbatim>\<open>-nan\<close>) and no other operation of
  the program reads. \<open>real_type\<close> has one NaN, and the arithmetic of the host and of the device
  decide the sign bit of the NaNs they produce: it is an answer of the runtime.
\<close>

record runtime =
  malloc_ok :: "vector \<Rightarrow> bool"
  uninitialised :: "vector \<Rightarrow> nat \<Rightarrow> real_type"
  cudaMalloc_result :: "vector \<Rightarrow> cudaError_t"
  device_ptr :: "vector \<Rightarrow> addr"
  device_memory :: memory
  cudaMemcpy_result :: "vector \<Rightarrow> cudaError_t"
  kernel_result :: cudaError_t
  lane_order :: "lane \<Rightarrow> nat"
  cudaFree_result :: "vector \<Rightarrow> cudaError_t"
  cudaGetErrorString :: "cudaError_t \<Rightarrow> string"
  libm_sin :: "real_type \<Rightarrow> real_type"
  libm_cos :: "real_type \<Rightarrow> real_type"
  printf_f :: "nat \<Rightarrow> bool \<Rightarrow> real_type \<Rightarrow> string"
  DECIMAL_DIG :: nat
  nan_sign_expected :: "nat \<Rightarrow> bool"
  nan_sign_actual :: "nat \<Rightarrow> bool"

text \<open>What a run does, in order: the calls it makes and the text it writes.\<close>

datatype event =
    Malloc vector
  | CudaMalloc vector
  | CudaMemcpy_HostToDevice vector
  | CudaMemcpy_DeviceToHost vector
  | CudaGetLastError
  | Launch "32 word" "32 word"
  | CudaDeviceSynchronize
  | CudaFree vector
  | Free vector
  | Stderr string
  | Stdout string

text \<open>
  A run ends by returning a status from \<^verbatim>\<open>main\<close>, or by \<^verbatim>\<open>abort\<close> when an assertion
  fails.
\<close>

datatype outcome = Exit int | Abort abort

fun stdout :: "event list \<Rightarrow> string list" where
  "stdout [] = []"
| "stdout (Stdout s # es) = s # stdout es"
| "stdout (e # es) = stdout es"

fun stderr :: "event list \<Rightarrow> string list" where
  "stderr [] = []"
| "stderr (Stderr s # es) = s # stderr es"
| "stderr (e # es) = stderr es"

fun is_launch :: "event \<Rightarrow> bool" where
  "is_launch (Launch g t) = True"
| "is_launch e = False"

fun is_free :: "event \<Rightarrow> bool" where
  "is_free (CudaFree v) = True"
| "is_free (Free v) = True"
| "is_free e = False"

subsection \<open>The texts written\<close>

definition newline :: char where
  "newline = CHR 0x0A"

text \<open>\<^verbatim>\<open>%zu\<close>: a \<^verbatim>\<open>size_t\<close> in decimal.\<close>

fun printf_zu :: "nat \<Rightarrow> string" where
  "printf_zu n =
     (if n < 10 then [''0123456789'' ! n]
      else printf_zu (n div 10) @ [''0123456789'' ! (n mod 10)])"

declare printf_zu.simps [simp del]

fun vector_name :: "vector \<Rightarrow> string" where
  "vector_name A = ''a''"
| "vector_name B = ''b''"
| "vector_name C = ''c''"

definition host_alloc_error :: "vector \<Rightarrow> string" where
  "host_alloc_error v =
     ''Error: couldn't allocate memory for host vector `'' @ vector_name v @ ''' (''
       @ printf_zu (unat bytes) @ '' bytes).'' @ [newline]"

definition device_alloc_error :: "runtime \<Rightarrow> vector \<Rightarrow> string" where
  "device_alloc_error rt v =
     ''Error: couldn't allocate memory for device vector `'' @ vector_name v @ ''' (''
       @ printf_zu (unat bytes) @ '' bytes): ''
       @ cudaGetErrorString rt (cudaMalloc_result rt v) @ ''.'' @ [newline]"

definition copy_to_device_error :: "runtime \<Rightarrow> vector \<Rightarrow> string" where
  "copy_to_device_error rt v =
     ''Error: couldn't copy host vector `'' @ vector_name v @ ''' to device: ''
       @ cudaGetErrorString rt (cudaMemcpy_result rt v) @ ''.'' @ [newline]"

definition launch_error :: "runtime \<Rightarrow> string" where
  "launch_error rt =
     ''Error: couldn't launch kernel: '' @ cudaGetErrorString rt (kernel_result rt)
       @ ''.'' @ [newline]"

definition copy_to_host_error :: "runtime \<Rightarrow> vector \<Rightarrow> string" where
  "copy_to_host_error rt v =
     ''Error: couldn't copy vector `'' @ vector_name v @ ''' to host: ''
       @ cudaGetErrorString rt (cudaMemcpy_result rt v) @ ''.'' @ [newline]"

definition test_failed :: "runtime \<Rightarrow> nat \<Rightarrow> real_type \<Rightarrow> real_type \<Rightarrow> string" where
  "test_failed rt i expected actual =
     ''Test failed at element '' @ printf_zu i
       @ '': expected='' @ printf_f rt (DECIMAL_DIG rt) (nan_sign_expected rt i) expected
       @ '';actual='' @ printf_f rt (DECIMAL_DIG rt) (nan_sign_actual rt i) actual
       @ '';.'' @ [newline]"

definition free_error :: "runtime \<Rightarrow> vector \<Rightarrow> string" where
  "free_error rt v =
     ''Error: couldn't free device vector `'' @ vector_name v @ ''': ''
       @ cudaGetErrorString rt (cudaFree_result rt v) @ ''.'' @ [newline]"

definition done_message :: string where
  "done_message = ''Done.'' @ [newline]"

subsection \<open>The phases of \<^verbatim>\<open>main\<close>\<close>

text \<open>
  The conversion of a \<^verbatim>\<open>size_t\<close> to \<^verbatim>\<open>double\<close> in \<^verbatim>\<open>sin (i)\<close> and \<^verbatim>\<open>cos (i)\<close>.
\<close>

definition double_of_size_t :: "nat \<Rightarrow> real_type" where
  "double_of_size_t i = fround False (i * 2 ^ 1074) 1"

text \<open>
  The loop that fills \<^verbatim>\<open>host_a\<close> and \<^verbatim>\<open>host_b\<close>, from index \<open>i\<close> on; \<open>n\<close> is \<^verbatim>\<open>count\<close>.
\<close>

function populate ::
  "runtime \<Rightarrow> nat \<Rightarrow> nat \<Rightarrow> real_type list \<times> real_type list \<Rightarrow> real_type list \<times> real_type list" where
  "populate rt n i (host_a, host_b) =
     (if i < n
      then populate rt n (i + 1)
             (host_a [i := fmul (libm_sin rt (double_of_size_t i)) (libm_sin rt (double_of_size_t i))],
              host_b [i := fmul (libm_cos rt (double_of_size_t i)) (libm_cos rt (double_of_size_t i))])
      else (host_a, host_b))"
  by pat_completeness auto
termination
  by (relation "measure (\<lambda>(rt, n, i, hs). n - i)") auto

declare populate.simps [simp del]

text \<open>
  A successful \<^verbatim>\<open>cudaMemcpy\<close> of \<open>n\<close> cells, to the device buffer at \<open>p\<close> and from it.
\<close>

definition copy_to_device :: "addr \<Rightarrow> nat \<Rightarrow> real_type list \<Rightarrow> memory \<Rightarrow> memory" where
  "copy_to_device p n xs mem = (\<lambda>q. if p \<le> q \<and> q < p + n then xs ! (q - p) else mem q)"

definition copy_from_device :: "addr \<Rightarrow> nat \<Rightarrow> memory \<Rightarrow> real_type list" where
  "copy_from_device p n mem = map (\<lambda>i. mem (p + i)) [0 ..< n]"

text \<open>
  The validation loop, from index \<open>i\<close> on; \<open>n\<close> is \<^verbatim>\<open>count\<close>. It returns the indices at which
  it called \<^verbatim>\<open>isClose\<close>, in order, and how it ended: every element passed, or the test
  failed at an index (with the expected and the actual value), or an assertion of
  \<^verbatim>\<open>isClose\<close> failed.
\<close>

datatype verdict = Passed | Failed nat real_type real_type | Asserted abort

function validate ::
  "nat \<Rightarrow> nat \<Rightarrow> real_type list \<Rightarrow> real_type list \<Rightarrow> real_type list \<Rightarrow> nat list \<times> verdict" where
  "validate n i host_a host_b host_c =
     (if i < n then
        (let expected = fadd (host_a ! i) (host_b ! i);
             actual = host_c ! i
         in case isClose expected actual (literal 1 (10 ^ 8)) (literal 1 (10 ^ 16)) of
              Inl e \<Rightarrow> ([i], Asserted e)
            | Inr close \<Rightarrow>
                if close = 0 then ([i], Failed i expected actual)
                else (let (checked, v) = validate n (i + 1) host_a host_b host_c
                      in (i # checked, v)))
      else ([], Passed))"
  by pat_completeness auto
termination
  by (relation "measure (\<lambda>(n, i, hs). n - i)") auto

declare validate.simps [simp del]

subsection \<open>\<^verbatim>\<open>main\<close>\<close>

text \<open>Writing a diagnostic and returning \<^verbatim>\<open>EXIT_FAILURE\<close>.\<close>

definition fail :: "event list \<Rightarrow> string \<Rightarrow> event list \<times> outcome" where
  "fail t message = (t @ [Stderr message], Exit EXIT_FAILURE)"

text \<open>
  \<^verbatim>\<open>main\<close> is one function; it is written here in three parts, last part first. Each part
  takes the events \<open>t\<close> of the run so far and gives the events of the whole run and how it
  ended.

  Lines 172 to 202: the device buffers and the host buffers are released and \<^verbatim>\<open>Done.\<close> is
  written.
\<close>

definition release :: "runtime \<Rightarrow> event list \<Rightarrow> event list \<times> outcome" where
  "release rt t =
    (let t = t @ [CudaFree A] in
     if cudaFree_result rt A \<noteq> cudaSuccess then fail t (free_error rt A) else
     let t = t @ [CudaFree B] in
     if cudaFree_result rt B \<noteq> cudaSuccess then fail t (free_error rt B) else
     let t = t @ [CudaFree C] in
     if cudaFree_result rt C \<noteq> cudaSuccess then fail t (free_error rt C) else
     (t @ [Free A, Free B, Free C, Stdout done_message], Exit EXIT_SUCCESS))"

text \<open>Lines 157 to 170: the validation loop over \<open>n\<close> elements, and what follows it.\<close>

definition validation ::
  "runtime \<Rightarrow> event list \<Rightarrow> nat \<Rightarrow> real_type list \<Rightarrow> real_type list \<Rightarrow> real_type list
   \<Rightarrow> event list \<times> outcome" where
  "validation rt t n host_a host_b host_c =
    (case snd (validate n 0 host_a host_b host_c) of
       Asserted e \<Rightarrow> (t, Abort e)
     | Failed i expected actual \<Rightarrow> fail t (test_failed rt i expected actual)
     | Passed \<Rightarrow> release rt t)"

text \<open>
  Lines 59 to 155, and the whole of \<^verbatim>\<open>main\<close>: a run under a runtime. The buffers have
  \<^verbatim>\<open>count\<close> cells (\<^verbatim>\<open>bytes / sizeof (real_type)\<close>).
\<close>

definition main :: "runtime \<Rightarrow> event list \<times> outcome" where
  "main rt =
    (let t = [Malloc A] in
     if \<not> malloc_ok rt A then fail t (host_alloc_error A) else
     let t = t @ [Malloc B] in
     if \<not> malloc_ok rt B then fail t (host_alloc_error B) else
     let t = t @ [Malloc C] in
     if \<not> malloc_ok rt C then fail t (host_alloc_error C) else
     let t = t @ [CudaMalloc A] in
     if cudaMalloc_result rt A \<noteq> cudaSuccess then fail t (device_alloc_error rt A) else
     let t = t @ [CudaMalloc B] in
     if cudaMalloc_result rt B \<noteq> cudaSuccess then fail t (device_alloc_error rt B) else
     let t = t @ [CudaMalloc C] in
     if cudaMalloc_result rt C \<noteq> cudaSuccess then fail t (device_alloc_error rt C) else
     let (host_a, host_b) =
           populate rt (unat count) 0
             (map (uninitialised rt A) [0 ..< unat count], map (uninitialised rt B) [0 ..< unat count]);
         t = t @ [CudaMemcpy_HostToDevice A] in
     if cudaMemcpy_result rt A \<noteq> cudaSuccess then fail t (copy_to_device_error rt A) else
     let mem = copy_to_device (device_ptr rt A) (unat count) host_a (device_memory rt);
         t = t @ [CudaMemcpy_HostToDevice B] in
     if cudaMemcpy_result rt B \<noteq> cudaSuccess then fail t (copy_to_device_error rt B) else
     let mem = copy_to_device (device_ptr rt B) (unat count) host_b mem;
         t = t @ [CudaGetLastError, Launch blocks_per_grid threads_per_block,
                  CudaDeviceSynchronize, CudaGetLastError] in
     if kernel_result rt \<noteq> cudaSuccess then fail t (launch_error rt) else
     let mem = snd (launch (lane_order rt) blocks_per_grid threads_per_block
                     (vectorAddition (device_ptr rt A) (device_ptr rt B) (device_ptr rt C) count)
                     mem);
         t = t @ [CudaMemcpy_DeviceToHost C] in
     if cudaMemcpy_result rt C \<noteq> cudaSuccess then fail t (copy_to_host_error rt C) else
     let host_c = copy_from_device (device_ptr rt C) (unat count) mem in
     validation rt t (unat count) host_a host_b host_c)"

subsection \<open>Notions used to state the properties of a run\<close>

text \<open>The host vectors of a run: what the population loop and the copy back produce.\<close>

definition host_inputs :: "runtime \<Rightarrow> real_type list \<times> real_type list" where
  "host_inputs rt =
     populate rt (unat count) 0
       (map (uninitialised rt A) [0 ..< unat count], map (uninitialised rt B) [0 ..< unat count])"

definition host_result :: "runtime \<Rightarrow> real_type list" where
  "host_result rt =
     copy_from_device (device_ptr rt C) (unat count)
       (snd (launch (lane_order rt) blocks_per_grid threads_per_block
              (vectorAddition (device_ptr rt A) (device_ptr rt B) (device_ptr rt C) count)
              (copy_to_device (device_ptr rt B) (unat count) (snd (host_inputs rt))
                (copy_to_device (device_ptr rt A) (unat count) (fst (host_inputs rt))
                  (device_memory rt)))))"

text \<open>Every element of the result passes the test of the validation loop.\<close>

definition validated :: "runtime \<Rightarrow> bool" where
  "validated rt \<longleftrightarrow>
     snd (validate (unat count) 0 (fst (host_inputs rt)) (snd (host_inputs rt)) (host_result rt))
       = Passed"

text \<open>
  The test of the validation loop at index \<open>i\<close>:
  \<^verbatim>\<open>isClose (host_a [i] + host_b [i], host_c [i], 1e-8, 1e-16)\<close> returns true.
\<close>

definition close_at :: "real_type list \<Rightarrow> real_type list \<Rightarrow> real_type list \<Rightarrow> nat \<Rightarrow> bool" where
  "close_at host_a host_b host_c i \<longleftrightarrow>
     isClose (fadd (host_a ! i) (host_b ! i)) (host_c ! i) (literal 1 (10 ^ 8)) (literal 1 (10 ^ 16))
       = Inr 1"

text \<open>The events of a run that reaches the validation loop, up to the loop.\<close>

definition before_validation :: "event list" where
  "before_validation =
     [Malloc A, Malloc B, Malloc C, CudaMalloc A, CudaMalloc B, CudaMalloc C,
      CudaMemcpy_HostToDevice A, CudaMemcpy_HostToDevice B,
      CudaGetLastError, Launch blocks_per_grid threads_per_block, CudaDeviceSynchronize,
      CudaGetLastError, CudaMemcpy_DeviceToHost C]"

text \<open>The steps before the validation loop succeed.\<close>

definition transferred :: "runtime \<Rightarrow> bool" where
  "transferred rt \<longleftrightarrow>
     malloc_ok rt A \<and> malloc_ok rt B \<and> malloc_ok rt C
     \<and> cudaMalloc_result rt A = cudaSuccess \<and> cudaMalloc_result rt B = cudaSuccess
     \<and> cudaMalloc_result rt C = cudaSuccess
     \<and> cudaMemcpy_result rt A = cudaSuccess \<and> cudaMemcpy_result rt B = cudaSuccess
     \<and> kernel_result rt = cudaSuccess
     \<and> cudaMemcpy_result rt C = cudaSuccess"

text \<open>The steps before the release of the buffers succeed, and all steps do.\<close>

definition computed :: "runtime \<Rightarrow> bool" where
  "computed rt \<longleftrightarrow> transferred rt \<and> validated rt"

definition successful :: "runtime \<Rightarrow> bool" where
  "successful rt \<longleftrightarrow>
     computed rt
     \<and> cudaFree_result rt A = cudaSuccess \<and> cudaFree_result rt B = cudaSuccess
     \<and> cudaFree_result rt C = cudaSuccess"

text \<open>
  The texts of the libraries hold no newline: the descriptions of \<^verbatim>\<open>cudaGetErrorString\<close>
  and what \<^verbatim>\<open>printf\<close> writes for a \<^verbatim>\<open>double\<close>.
\<close>

definition plain_texts :: "runtime \<Rightarrow> bool" where
  "plain_texts rt \<longleftrightarrow>
     (\<forall>e. newline \<notin> set (cudaGetErrorString rt e)) \<and> (\<forall>d s x. newline \<notin> set (printf_f rt d s x))"

text \<open>
  The device buffers that \<^verbatim>\<open>cudaMalloc\<close> hands out do not overlap (each has \<^verbatim>\<open>count\<close>
  cells).
\<close>

definition separate_buffers :: "runtime \<Rightarrow> bool" where
  "separate_buffers rt \<longleftrightarrow>
     apart (device_ptr rt A) (device_ptr rt B) (unat count)
     \<and> apart (device_ptr rt A) (device_ptr rt C) (unat count)
     \<and> apart (device_ptr rt B) (device_ptr rt C) (unat count)"

text \<open>
  A diagnostic line: a text that ends with a newline and, when the texts of the libraries are
  plain, holds no other newline.
\<close>

definition diagnostic_line :: "runtime \<Rightarrow> string \<Rightarrow> bool" where
  "diagnostic_line rt m \<longleftrightarrow>
     m \<noteq> [] \<and> last m = newline \<and> (plain_texts rt \<longrightarrow> newline \<notin> set (butlast m))"

text \<open>
  A run that has written nothing so far, and a failed run: it exits with \<^verbatim>\<open>EXIT_FAILURE\<close>,
  has written nothing to standard output and one diagnostic line to standard error.
\<close>

definition quiet :: "event list \<Rightarrow> bool" where
  "quiet t \<longleftrightarrow> stdout t = [] \<and> stderr t = []"

definition failure :: "runtime \<Rightarrow> event list \<times> outcome \<Rightarrow> bool" where
  "failure rt r \<longleftrightarrow>
     snd r = Exit EXIT_FAILURE \<and> stdout (fst r) = []
     \<and> (\<exists>m. stderr (fst r) = [m] \<and> diagnostic_line rt m)"

text \<open>
  \<^verbatim>\<open>%.*f\<close> as the GNU C library writes it: the value rounded to \<open>d\<close> decimals (to nearest,
  ties to even), with a minus sign when the sign bit is set; \<^verbatim>\<open>inf\<close> and \<^verbatim>\<open>nan\<close> for the
  infinities and the NaNs.
\<close>

definition printf_fixed :: "nat \<Rightarrow> bool \<Rightarrow> real_type \<Rightarrow> string" where
  "printf_fixed d s x =
     (case x of
        Finite sign n \<Rightarrow>
          (let q = rne_div (n * 10 ^ d) (2 ^ 1074);
               fraction = printf_zu (q mod 10 ^ d)
           in (if sign then ''-'' else []) @ printf_zu (q div 10 ^ d)
              @ (if d = 0 then []
                 else ''.'' @ replicate (d - length fraction) (CHR ''0'') @ fraction))
      | Infinity sign \<Rightarrow> (if sign then ''-inf'' else ''inf'')
      | NaN \<Rightarrow> (if s then ''-nan'' else ''nan''))"

text \<open>
  A runtime in which every call succeeds: the device buffers are one after the other, the
  lanes run in the order of the grid, \<^verbatim>\<open>sin\<close> answers 0 and \<^verbatim>\<open>cos\<close> answers 1, \<^verbatim>\<open>printf\<close> is
  that of the GNU C library, the NaNs of the host are negative and those of the device
  positive.
\<close>

definition grid_order :: "lane \<Rightarrow> nat" where
  "grid_order l = 0"

definition all_well :: runtime where
  "all_well =
     \<lparr>malloc_ok = (\<lambda>v. True),
      uninitialised = (\<lambda>v i. NaN),
      cudaMalloc_result = (\<lambda>v. cudaSuccess),
      device_ptr = (\<lambda>v. case v of A \<Rightarrow> 0 | B \<Rightarrow> 65536 | C \<Rightarrow> 131072),
      device_memory = (\<lambda>p. NaN),
      cudaMemcpy_result = (\<lambda>v. cudaSuccess),
      kernel_result = cudaSuccess,
      lane_order = grid_order,
      cudaFree_result = (\<lambda>v. cudaSuccess),
      cudaGetErrorString = (\<lambda>e. ''out of memory''),
      libm_sin = (\<lambda>x. zero),
      libm_cos = (\<lambda>x. one),
      printf_f = printf_fixed,
      DECIMAL_DIG = 21,
      nan_sign_expected = (\<lambda>i. True),
      nan_sign_actual = (\<lambda>i. False)\<rparr>"

text \<open>
  Two device memories: one where cell \<open>p\<close> holds \<open>p\<close> units, and one where the first \<open>65536\<close>
  cells hold \<open>+inf\<close> and the others \<open>-inf\<close>.
\<close>

definition ramp :: memory where
  "ramp p = Finite False p"

definition opposite_infinities :: memory where
  "opposite_infinities p = Infinity (65536 \<le> p)"

section \<open>Properties of rounding\<close>

lemma bitlen_le_iff: "bitlen n \<le> k \<longleftrightarrow> n < 2 ^ k"
proof (induction k arbitrary: n)
  case 0
  show ?case by (subst bitlen.simps) simp
next
  case (Suc k)
  show ?case
  proof (cases "n = 0")
    case True
    then show ?thesis by (subst bitlen.simps) simp
  next
    case False
    have "bitlen n = Suc (bitlen (n div 2))"
      using False by (subst bitlen.simps) simp
    then have "bitlen n \<le> Suc k \<longleftrightarrow> n div 2 < 2 ^ k"
      using Suc.IH [of "n div 2"] by simp
    also have "\<dots> \<longleftrightarrow> n < 2 ^ Suc k"
      by auto
    finally show ?thesis .
  qed
qed

lemma bitlen_mono: "m \<le> n \<Longrightarrow> bitlen m \<le> bitlen n"
proof -
  assume le: "m \<le> n"
  have "n < 2 ^ bitlen n"
    using bitlen_le_iff [of n "bitlen n"] by simp
  with le have "m < 2 ^ bitlen n" by simp
  then show ?thesis by (simp add: bitlen_le_iff)
qed

lemma rne_div_lower: "a div d \<le> rne_div a d"
  by (simp add: rne_div_def Let_def)

lemma rne_div_upper: "rne_div a d \<le> a div d + 1"
  by (simp add: rne_div_def Let_def)

text \<open>\<open>rne_div a d\<close> is within one half of \<open>a / d\<close>.\<close>

lemma rne_div_nearest:
  assumes d: "0 < d"
  shows "2 * (rne_div a d * d - a) \<le> d \<and> 2 * (a - rne_div a d * d) \<le> d"
proof -
  define q r where "q = a div d" and "r = a mod d"
  have a: "a = q * d + r"
    by (simp add: q_def r_def)
  have r: "r < d"
    using d by (simp add: r_def)
  have up: "(q + 1) * d - a = d - r" and up': "a - (q + 1) * d = 0"
    and down: "a - q * d = r" and down': "q * d - a = 0"
    using r by (simp_all add: a)
  show ?thesis
  proof (cases "d < 2 * r \<or> (2 * r = d \<and> odd q)")
    case True
    then have e: "rne_div a d = q + 1"
      by (simp add: rne_div_def Let_def q_def r_def)
    show ?thesis
      unfolding e up up' using True r by auto
  next
    case False
    then have e: "rne_div a d = q"
      by (simp add: rne_div_def Let_def q_def r_def)
    show ?thesis
      unfolding e down down' using False by auto
  qed
qed

lemma rne_div_mono:
  assumes d: "0 < d" and le: "a \<le> a'"
  shows "rne_div a d \<le> rne_div a' d"
proof (cases "a div d < a' div d")
  case True
  have "rne_div a d \<le> a div d + 1" by (rule rne_div_upper)
  also have "\<dots> \<le> a' div d" using True by simp
  also have "\<dots> \<le> rne_div a' d" by (rule rne_div_lower)
  finally show ?thesis .
next
  case False
  have "a div d \<le> a' div d" using le by (rule div_le_mono)
  with False have q: "a' div d = a div d" by simp
  have "a = d * (a div d) + a mod d" "a' = d * (a' div d) + a' mod d"
    by simp_all
  with q le have r: "a mod d \<le> a' mod d"
    by (metis add_le_cancel_left)
  show ?thesis
    using q r by (auto simp: rne_div_def Let_def)
qed

lemma rne_div_less: "0 < d \<Longrightarrow> a < K * d \<Longrightarrow> rne_div a d \<le> K"
proof -
  assume d: "0 < d" and "a < K * d"
  then have "a div d < K" by (simp add: div_less_iff_less_mult)
  with rne_div_upper [of a d] show ?thesis by simp
qed

lemma rne_div_ge: "0 < d \<Longrightarrow> K * d \<le> a \<Longrightarrow> K \<le> rne_div a d"
proof -
  assume d: "0 < d" and "K * d \<le> a"
  then have "K \<le> a div d" by (simp add: less_eq_div_iff_mult_less_eq)
  with rne_div_lower [of a d] show ?thesis by simp
qed

lemma round_mag_shift: "round_mag a b = rne_div a (b * 2 ^ round_shift a b) * 2 ^ round_shift a b"
  by (simp add: round_mag_def Let_def)

lemma round_shift_mono: "a \<le> a' \<Longrightarrow> round_shift a b \<le> round_shift a' b"
  using bitlen_mono [OF div_le_mono, of a a' b] by (auto simp: round_shift_def Let_def)

lemma round_mag_upper:
  assumes b: "0 < b"
  shows "round_mag a b \<le> 2 ^ (53 + round_shift a b)"
proof -
  let ?t = "round_shift a b"
  have "bitlen (a div b) \<le> 53 + ?t"
    by (simp add: round_shift_def Let_def)
  then have "a div b < 2 ^ (53 + ?t)"
    by (simp add: bitlen_le_iff)
  then have "a < 2 ^ (53 + ?t) * b"
    using b by (simp add: div_less_iff_less_mult)
  then have "a < 2 ^ 53 * (b * 2 ^ ?t)"
    by (simp add: power_add mult_ac)
  then have "rne_div a (b * 2 ^ ?t) \<le> 2 ^ 53"
    using b by (intro rne_div_less) simp_all
  then have "rne_div a (b * 2 ^ ?t) * 2 ^ ?t \<le> 2 ^ 53 * 2 ^ ?t"
    by (rule mult_le_mono1)
  then show ?thesis
    by (simp add: round_mag_shift power_add)
qed

lemma round_mag_lower:
  assumes b: "0 < b" and t: "0 < round_shift a b"
  shows "2 ^ (52 + round_shift a b) \<le> round_mag a b"
proof -
  let ?t = "round_shift a b"
  have "bitlen (a div b) = 53 + ?t"
    using t by (auto simp: round_shift_def Let_def split: if_splits)
  then have "\<not> bitlen (a div b) \<le> 52 + ?t" by simp
  then have "2 ^ (52 + ?t) \<le> a div b"
    by (simp add: bitlen_le_iff)
  then have "2 ^ (52 + ?t) * b \<le> a"
    using b by (simp add: less_eq_div_iff_mult_less_eq)
  then have "2 ^ 52 * (b * 2 ^ ?t) \<le> a"
    by (simp add: power_add mult_ac)
  then have "2 ^ 52 \<le> rne_div a (b * 2 ^ ?t)"
    using b by (intro rne_div_ge) simp_all
  then have "2 ^ 52 * 2 ^ ?t \<le> rne_div a (b * 2 ^ ?t) * 2 ^ ?t"
    by (rule mult_le_mono1)
  then show ?thesis
    by (simp add: round_mag_shift power_add)
qed

lemma round_mag_mono:
  assumes b: "0 < b" and le: "a \<le> a'"
  shows "round_mag a b \<le> round_mag a' b"
proof (cases "round_shift a b = round_shift a' b")
  case True
  have "rne_div a (b * 2 ^ round_shift a b) \<le> rne_div a' (b * 2 ^ round_shift a b)"
    using b le by (intro rne_div_mono) simp_all
  then show ?thesis
    using True by (simp add: round_mag_shift)
next
  case False
  with round_shift_mono [OF le, of b]
  have lt: "round_shift a b < round_shift a' b" by simp
  have "round_mag a b \<le> 2 ^ (53 + round_shift a b)"
    using b by (rule round_mag_upper)
  also have "\<dots> \<le> (2::nat) ^ (52 + round_shift a' b)"
    using lt by (intro power_increasing) simp_all
  also have "\<dots> \<le> round_mag a' b"
    using b lt by (intro round_mag_lower) simp_all
  finally show ?thesis .
qed

lemma round_mag_0: "0 < b \<Longrightarrow> round_mag 0 b = 0"
  by (simp add: round_mag_def rne_div_def Let_def bitlen.simps [of 0])

lemma fround_mono:
  "0 < b \<Longrightarrow> a \<le> a' \<Longrightarrow> fle (fround False a b) (fround False a' b)"
  using round_mag_mono [of b a a'] by (simp add: fround_def Let_def sval_def)


lemma bitlen_0: "bitlen 0 = 0"
  by (simp add: bitlen.simps)

lemma bitlen_1: "bitlen 1 = 1"
  by (simp add: bitlen.simps)

lemma bitlen_Suc0: "bitlen (Suc 0) = 1"
  by (simp add: bitlen.simps)

lemma bitlen_Bit0: "bitlen (numeral (Num.Bit0 k)) = Suc (bitlen (numeral k))"
  by (subst bitlen.simps) simp

lemma bitlen_Bit1: "bitlen (numeral (Num.Bit1 k)) = Suc (bitlen (numeral k))"
  by (subst bitlen.simps) simp

lemmas bitlen_numeral = bitlen_0 bitlen_1 bitlen_Suc0 bitlen_Bit0 bitlen_Bit1

lemma bitlen_power2: "bitlen (2 ^ k) = Suc k"
proof (induction k)
  case 0
  show ?case by (simp add: bitlen_Suc0)
next
  case (Suc k)
  then show ?case by (subst bitlen.simps) simp
qed

lemma round_mag_exact:
  assumes b: "0 < b" and m: "2 ^ (bitlen m - 53) dvd m"
  shows "round_mag (m * b) b = m"
proof -
  define t where "t = bitlen m - 53"
  have shift: "round_shift (m * b) b = t"
    using b by (simp add: round_shift_def Let_def t_def)
  obtain q where q: "m = q * 2 ^ t"
    using m unfolding t_def by (auto simp: dvd_def mult.commute)
  have e: "m * b = q * (b * 2 ^ t)"
    by (simp add: q mult_ac)
  have r: "rne_div (m * b) (b * 2 ^ t) = q"
    unfolding e using b by (simp add: rne_div_def Let_def)
  have "round_mag (m * b) b = rne_div (m * b) (b * 2 ^ t) * 2 ^ t"
    by (simp only: round_mag_shift shift)
  also have "\<dots> = q * 2 ^ t"
    by (simp only: r)
  also have "\<dots> = m"
    by (rule q [symmetric])
  finally show ?thesis .
qed

lemma round_mag_power2: "0 < b \<Longrightarrow> round_mag (2 ^ k * b) b = 2 ^ k"
  by (rule round_mag_exact) (simp_all add: bitlen_power2 le_imp_power_dvd)


section \<open>The operations stay within the doubles\<close>

lemma rne_div_le_53: "0 < b \<Longrightarrow> rne_div a (b * 2 ^ round_shift a b) \<le> 2 ^ 53"
proof -
  assume b: "0 < b"
  let ?t = "round_shift a b"
  have "bitlen (a div b) \<le> 53 + ?t"
    by (simp add: round_shift_def Let_def)
  then have "a div b < 2 ^ (53 + ?t)"
    by (simp add: bitlen_le_iff)
  then have "a < 2 ^ (53 + ?t) * b"
    using b by (simp add: div_less_iff_less_mult)
  then have "a < 2 ^ 53 * (b * 2 ^ ?t)"
    by (simp add: power_add mult_ac)
  then show ?thesis
    using b by (intro rne_div_less) simp_all
qed

lemma representable_round_mag:
  assumes b: "0 < b" and fin: "round_mag a b < 2 ^ 2098"
  shows "representable (round_mag a b)"
proof -
  define t where "t = round_shift a b"
  define q where "q = rne_div a (b * 2 ^ t)"
  define m where "m = round_mag a b"
  have m: "m = q * 2 ^ t"
    by (simp add: m_def q_def t_def round_mag_shift)
  have q: "q \<le> 2 ^ 53"
    unfolding q_def t_def using b by (rule rne_div_le_53)
  then have "q * 2 ^ t \<le> 2 ^ 53 * 2 ^ t"
    by (rule mult_le_mono1)
  then have le: "m \<le> 2 ^ (53 + t)"
    by (simp add: m power_add)
  have t_dvd: "2 ^ t dvd m"
    by (simp add: m)
  have "2 ^ (bitlen m - 53) dvd m"
  proof (cases "bitlen m \<le> 53 + t")
    case True
    then have "(2::nat) ^ (bitlen m - 53) dvd 2 ^ t"
      by (intro le_imp_power_dvd) simp
    then show ?thesis
      using t_dvd by (rule dvd_trans)
  next
    case False
    then have "2 ^ (53 + t) \<le> m"
      by (simp add: bitlen_le_iff)
    with le have eq: "m = 2 ^ (53 + t)"
      by simp
    have "(2::nat) ^ (bitlen m - 53) dvd 2 ^ (53 + t)"
      unfolding eq bitlen_power2 by (intro le_imp_power_dvd) simp
    then show ?thesis
      by (simp add: eq)
  qed
  then show ?thesis
    using fin by (simp add: representable_def m_def)
qed

lemma is_double_fround: "0 < b \<Longrightarrow> is_double (fround s a b)"
  by (simp add: fround_def Let_def representable_round_mag)

lemma representable_0: "representable 0"
  by (simp add: representable_def)

lemma is_double_fadd: "is_double (fadd x y)"
  by (cases x; cases y) (simp_all add: Let_def is_double_fround representable_0)

lemma is_double_fneg: "is_double x \<Longrightarrow> is_double (fneg x)"
  by (cases x) simp_all

lemma is_double_fsub: "is_double (fsub x y)"
  by (simp add: fsub_def is_double_fadd)

lemma is_double_fmul: "is_double (fmul x y)"
  by (cases x; cases y) (simp_all add: is_double_fround)

lemma is_double_fabs: "is_double x \<Longrightarrow> is_double (fabs x)"
  by (cases x) simp_all

lemma is_double_literal: "0 < q \<Longrightarrow> is_double (literal p q)"
  by (simp add: literal_def is_double_fround)

lemma is_double_of_size_t: "is_double (double_of_size_t i)"
  by (simp add: double_of_size_t_def is_double_fround)


section \<open>Properties of the comparisons and of \<open>isClose\<close>\<close>

lemma feq_sym: "feq x y = feq y x"
  by (cases x; cases y) auto

lemma fle_NaN_right [simp]: "fle x NaN = False"
  by (cases x) auto

lemma fle_refl: "x \<noteq> NaN \<Longrightarrow> fle x x"
  by (cases x) auto

lemma fle_trans: "fle x y \<Longrightarrow> fle y z \<Longrightarrow> fle x z"
  by (cases x; cases y; cases z) auto

lemma fle_antisym: "fle x y \<Longrightarrow> fle y x \<Longrightarrow> feq x y"
  by (cases x; cases y) auto

lemma fle_total: "x \<noteq> NaN \<Longrightarrow> y \<noteq> NaN \<Longrightarrow> fle x y \<or> fle y x"
  by (cases x; cases y) auto

lemma fgt_not_fle: "fgt x y \<Longrightarrow> \<not> fle x y"
  using fle_antisym [of x y] by (auto simp: fgt_def feq_sym)

lemma fabs_fround: "fabs (fround s a b) = fround False a b"
  by (simp add: fround_def Let_def)

lemma fabs_fsub_sym: "fabs (fsub x y) = fabs (fsub y x)"
proof (cases x; cases y)
  fix s n s' n'
  assume x: "x = Finite s n" and y: "y = Finite s' n'"
  define d where "d = sval s n + sval (\<not> s') n'"
  have 1: "fsub x y = (if d = 0 then Finite (s \<and> \<not> s') 0 else fround (d < 0) (nat \<bar>d\<bar>) 1)"
    by (simp add: x y fsub_def Let_def d_def)
  have "sval s' n' + sval (\<not> s) n = - d"
    by (simp add: d_def sval_def)
  then have 2: "fsub y x = (if d = 0 then Finite (s' \<and> \<not> s) 0 else fround (- d < 0) (nat \<bar>d\<bar>) 1)"
    by (simp add: x y fsub_def Let_def)
  show ?thesis
    unfolding 1 2 by (simp add: fabs_fround)
qed (simp_all add: fsub_def)

lemma sval_neg: "sval (\<not> s) n = - sval s n"
  by (simp add: sval_def)

lemma fsub_self_zero:
  "feq (Finite s n) (Finite s' n') \<Longrightarrow> fabs (fsub (Finite s n) (Finite s' n')) = Finite False 0"
  by (simp add: fsub_def Let_def sval_neg)

lemma fge_zero_cases:
  "fge r zero \<Longrightarrow> r = Infinity False \<or> (\<exists>n. r = Finite False n) \<or> r = Finite True 0"
  by (cases r) (auto simp: fge_def zero_def sval_def split: if_splits)

lemma fmul_abs_mono:
  assumes r: "fge r zero" and le: "n \<le> n'"
    and nn: "fmul r (Finite False n) \<noteq> NaN"
  shows "fle (fmul r (Finite False n)) (fmul r (Finite False n'))"
proof -
  consider "r = Infinity False" | k where "r = Finite False k" | "r = Finite True 0"
    using fge_zero_cases [OF r] by blast
  then show ?thesis
  proof cases
    case 1
    with nn le show ?thesis by (auto split: if_splits)
  next
    case 2
    have "k * n \<le> k * n'" using le by simp
    then show ?thesis
      unfolding 2 by (simp add: fround_mono)
  next
    case 3
    show ?thesis
      unfolding 3 by (simp add: fround_def round_mag_0 sval_def)
  qed
qed

lemma isClose_result:
  "fge r zero \<Longrightarrow> fge a zero \<Longrightarrow>
   isClose x y r a = Inr (of_bool (if isfinite x \<and> isfinite y
     then feq x y \<or> fle (fabs (fsub x y)) a
        \<or> fle (fabs (fsub x y)) (fmul r (fabs x))
        \<or> fle (fabs (fsub x y)) (fmul r (fabs y))
     else feq x y))"
  by (simp add: isClose_def Let_def)

lemma isClose_far:
  assumes r: "fge r zero" and a: "fge a zero"
    and fx: "isfinite x" and fy: "isfinite y"
    and da: "fgt (fabs (fsub x y)) a"
    and dr: "fgt (fabs (fsub x y)) (fmul r (fmax (fabs x) (fabs y)))"
  shows "isClose x y r a = Inr 0"
proof -
  obtain s n s' n' where x: "x = Finite s n" and y: "y = Finite s' n'"
    using fx fy by (cases x; cases y) auto
  let ?d = "fabs (fsub x y)"
  let ?M = "fmax (fabs x) (fabs y)"
  have neq: "\<not> feq x y"
  proof
    assume "feq x y"
    then have "?d = Finite False 0"
      unfolding x y by (rule fsub_self_zero)
    with da a show False
      by (cases a) (auto simp: fgt_def fge_def zero_def sval_def split: if_splits)
  qed
  have na: "\<not> fle ?d a"
    using da by (rule fgt_not_fle)
  have nM: "\<not> fle ?d (fmul r ?M)"
    using dr by (rule fgt_not_fle)
  have M: "fmax (Finite False n) (Finite False n') = Finite False (max n n')"
    by (auto simp: fmax_def sval_def max_def)
  have ax: "fabs x = Finite False n" and ay: "fabs y = Finite False n'"
    by (simp_all add: x y)
  have nx: "\<not> fle ?d (fmul r (fabs x))"
  proof
    assume le: "fle ?d (fmul r (fabs x))"
    have "fmul r (fabs x) \<noteq> NaN"
    proof
      assume "fmul r (fabs x) = NaN"
      with le show False by simp
    qed
    then have "fle (fmul r (fabs x)) (fmul r ?M)"
      unfolding ax ay M using r by (intro fmul_abs_mono) simp_all
    with le have "fle ?d (fmul r ?M)"
      by (rule fle_trans)
    with nM show False by simp
  qed
  have ny: "\<not> fle ?d (fmul r (fabs y))"
  proof
    assume le: "fle ?d (fmul r (fabs y))"
    have "fmul r (fabs y) \<noteq> NaN"
    proof
      assume "fmul r (fabs y) = NaN"
      with le show False by simp
    qed
    then have "fle (fmul r (fabs y)) (fmul r ?M)"
      unfolding ax ay M using r by (intro fmul_abs_mono) simp_all
    with le have "fle ?d (fmul r ?M)"
      by (rule fle_trans)
    with nM show False by simp
  qed
  show ?thesis
    using neq na nx ny fx fy by (simp add: isClose_result [OF r a])
qed

lemma isClose_identical:
  "fge r zero \<Longrightarrow> fge a zero \<Longrightarrow> isfinite x \<Longrightarrow> isClose x x r a = Inr 1"
  by (cases x) (simp_all add: isClose_result)


lemma isClose_not_finite:
  "fge r zero \<Longrightarrow> fge a zero \<Longrightarrow> \<not> (isfinite x \<and> isfinite y) \<Longrightarrow>
   isClose x y r a = Inr (if feq x y then 1 else 0)"
  by (auto simp: isClose_def)

lemma feq_refl: "x \<noteq> NaN \<Longrightarrow> feq x x"
  by (cases x) auto


section \<open>Properties of the kernel and of a launch\<close>

lemma unat_ucast_32_64: "unat (ucast (w :: 32 word) :: 64 word) = unat w"
proof -
  have "unat w < 2 ^ 32"
    using unsigned_less [of w] by simp
  then have "unat w < 2 ^ 64"
    by simp
  then show ?thesis
    by (simp add: unsigned_ucast_eq take_bit_nat_eq_self)
qed

lemma ucast_thread_id_less:
  "(ucast (w :: 32 word) :: 64 word) < n \<longleftrightarrow> unat w < unat n"
  by (simp add: word_less_nat_alt unat_ucast_32_64)

lemma vectorAddition_in_range:
  "unat (thread_id l) < unat n \<Longrightarrow>
   vectorAddition a b c n l mem =
     ([Read (a + unat (thread_id l)), Read (b + unat (thread_id l)), Write (c + unat (thread_id l))],
      mem (c + unat (thread_id l) :=
        fadd (mem (a + unat (thread_id l))) (mem (b + unat (thread_id l)))))"
  by (simp add: vectorAddition_def ucast_thread_id_less Let_def)

lemma vectorAddition_out_of_range:
  "unat n \<le> unat (thread_id l) \<Longrightarrow> vectorAddition a b c n l mem = ([], mem)"
  by (simp add: vectorAddition_def ucast_thread_id_less Let_def)

lemma vectorAddition_other:
  "p \<noteq> c + unat (thread_id l) \<Longrightarrow> snd (vectorAddition a b c n l mem) p = mem p"
  by (simp add: vectorAddition_def Let_def)

lemma blocks_per_grid_eq: "blocks_per_grid = 256"
  by (simp add: blocks_per_grid_def count_def threads_per_block_def)

lemma unat_count: "unat count = 65536"
  by (simp add: count_def)

lemma snd_run_lanes_Cons:
  "snd (run_lanes k (l # ls) mem) = snd (run_lanes k ls (snd (k l mem)))"
  by (simp add: split_def Let_def)

lemma fst_run_lanes_Cons:
  "fst (run_lanes k (l # ls) mem) = fst (k l mem) @ fst (run_lanes k ls (snd (k l mem)))"
  by (simp add: split_def Let_def)

lemma run_lanes_frame:
  "(\<And>l. l \<in> set ls \<Longrightarrow> unat (thread_id l) < unat n \<Longrightarrow> p \<noteq> c + unat (thread_id l)) \<Longrightarrow>
   snd (run_lanes (vectorAddition a b c n) ls mem) p = mem p"
proof (induction ls arbitrary: mem)
  case Nil
  show ?case by simp
next
  case (Cons l ls)
  let ?m1 = "snd (vectorAddition a b c n l mem)"
  have "snd (run_lanes (vectorAddition a b c n) ls ?m1) p = ?m1 p"
    using Cons.prems by (intro Cons.IH) simp_all
  also have "?m1 p = mem p"
  proof (cases "unat (thread_id l) < unat n")
    case True
    with Cons.prems [of l] have "p \<noteq> c + unat (thread_id l)" by simp
    then show ?thesis by (rule vectorAddition_other)
  next
    case False
    then show ?thesis by (simp add: vectorAddition_out_of_range)
  qed
  finally show ?case by (simp only: snd_run_lanes_Cons)
qed

lemma run_lanes_inputs:
  assumes r: "restrict a b c n" and j: "j < unat n"
  shows "snd (run_lanes (vectorAddition a b c n) ls mem) (a + j) = mem (a + j)"
    and "snd (run_lanes (vectorAddition a b c n) ls mem) (b + j) = mem (b + j)"
proof -
  have "a + j \<noteq> c + i \<and> b + j \<noteq> c + i" if "i < unat n" for i
    using r j that unfolding restrict_def apart_def by arith
  then show "snd (run_lanes (vectorAddition a b c n) ls mem) (a + j) = mem (a + j)"
    and "snd (run_lanes (vectorAddition a b c n) ls mem) (b + j) = mem (b + j)"
    by (simp_all add: run_lanes_frame)
qed

lemma run_lanes_value:
  assumes r: "restrict a b c n"
  shows "l \<in> set ls \<Longrightarrow> unat (thread_id l) < unat n \<Longrightarrow>
    snd (run_lanes (vectorAddition a b c n) ls mem) (c + unat (thread_id l)) =
      fadd (mem (a + unat (thread_id l))) (mem (b + unat (thread_id l)))"
proof (induction ls arbitrary: mem l)
  case Nil
  then show ?case by simp
next
  case (Cons l' ls)
  let ?i = "unat (thread_id l)"
  let ?m1 = "snd (vectorAddition a b c n l' mem)"
  have inputs: "?m1 (a + ?i) = mem (a + ?i)" "?m1 (b + ?i) = mem (b + ?i)"
    using run_lanes_inputs [OF r Cons.prems(2), of "[l']" mem] by (simp_all add: split_def)
  show ?case
  proof (cases "\<exists>l'' \<in> set ls. thread_id l'' = thread_id l")
    case True
    then obtain l'' where l'': "l'' \<in> set ls" and eq: "thread_id l'' = thread_id l"
      by blast
    have "snd (run_lanes (vectorAddition a b c n) ls ?m1) (c + unat (thread_id l'')) =
        fadd (?m1 (a + unat (thread_id l''))) (?m1 (b + unat (thread_id l'')))"
      using l'' Cons.prems(2) by (intro Cons.IH) (simp_all add: eq)
    then show ?thesis
      by (simp only: snd_run_lanes_Cons eq inputs)
  next
    case False
    with Cons.prems(1) have same: "thread_id l' = thread_id l"
      by auto
    have "snd (run_lanes (vectorAddition a b c n) ls ?m1) (c + ?i) = ?m1 (c + ?i)"
      using False by (intro run_lanes_frame) (auto simp: word_unat_eq_iff)
    also have "\<dots> = fadd (mem (a + ?i)) (mem (b + ?i))"
      using Cons.prems(2) by (simp add: vectorAddition_in_range same)
    finally show ?thesis
      by (simp only: snd_run_lanes_Cons)
  qed
qed

lemma concat_rows: "concat (map (\<lambda>b. map (\<lambda>t. n * b + t) [0 ..< n]) [0 ..< m]) = [0 ..< n * m]"
proof (induction m)
  case 0
  show ?case by simp
next
  case (Suc m)
  have row: "map (\<lambda>t. n * m + t) [0 ..< n] = [n * m ..< n * m + n]"
    by (simp add: map_add_upt add.commute)
  have "concat (map (\<lambda>b. map (\<lambda>t. n * b + t) [0 ..< n]) [0 ..< Suc m])
      = [0 ..< n * m] @ [n * m ..< n * m + n]"
    by (simp only: upt_Suc_append [OF le0] map_append concat_append Suc.IH row
        list.map concat.simps append_Nil2)
  also have "\<dots> = [0 ..< n * m + n]"
    by (rule upt_add_eq_append [symmetric]) simp
  also have "n * m + n = n * Suc m"
    by simp
  finally show ?case .
qed

lemma thread_id_grid:
  assumes b: "b < 256" and t: "t < 256"
  shows "unat (thread_id \<lparr>blockDim_x = 256, blockIdx_x = of_nat b, threadIdx_x = of_nat t\<rparr>)
    = 256 * b + t"
proof -
  have ob: "unat (of_nat b :: 32 word) = b" and ot: "unat (of_nat t :: 32 word) = t"
    using b t by (simp_all add: unat_of_nat)
  have "256 * b < 4294967296" and "256 * b + t < 4294967296"
    using b t by simp_all
  then show ?thesis
    by (simp add: thread_id_def unat_word_ariths ob ot)
qed

lemma thread_ids_grid:
  "map (\<lambda>l. unat (thread_id l)) (grid 256 256) = [0 ..< 65536]"
proof -
  have "map (\<lambda>l. unat (thread_id l)) (grid 256 256)
      = concat (map (\<lambda>b. map (\<lambda>t.
          unat (thread_id \<lparr>blockDim_x = 256, blockIdx_x = of_nat b, threadIdx_x = of_nat t\<rparr>))
            [0 ..< 256]) [0 ..< 256])"
    by (simp add: grid_def map_concat comp_def)
  also have "\<dots> = concat (map (\<lambda>b. map (\<lambda>t. 256 * b + t) [0 ..< 256]) [0 ..< 256])"
    by (intro arg_cong [where f = concat] map_cong refl) (simp add: thread_id_grid)
  also have "\<dots> = [0 ..< 256 * 256]"
    by (rule concat_rows)
  finally show ?thesis by simp
qed

lemma distinct_grid: "distinct (grid 256 256)"
proof -
  have "distinct (map (\<lambda>l. unat (thread_id l)) (grid 256 256))"
    by (simp add: thread_ids_grid)
  then show ?thesis by (simp add: distinct_map)
qed

lemma grid_covers: "i < 65536 \<Longrightarrow> \<exists>!l. l \<in> set (grid 256 256) \<and> unat (thread_id l) = i"
proof -
  assume i: "i < 65536"
  have d: "distinct (map (\<lambda>l. unat (thread_id l)) (grid 256 256))"
    by (simp add: thread_ids_grid)
  have "i \<in> set (map (\<lambda>l. unat (thread_id l)) (grid 256 256))"
    using i by (simp add: thread_ids_grid)
  then obtain l where l: "l \<in> set (grid 256 256)" "unat (thread_id l) = i"
    by auto
  moreover have "l' = l" if "l' \<in> set (grid 256 256)" "unat (thread_id l') = i" for l'
    using that l inj_on_eq_iff [OF distinct_map [THEN iffD1, THEN conjunct2, OF d], of l' l]
    by simp
  ultimately show ?thesis by blast
qed


lemma launch_value:
  assumes r: "restrict a b c count" and i: "i < unat count"
  shows "snd (launch order blocks_per_grid threads_per_block (vectorAddition a b c count) mem) (c + i)
    = fadd (mem (a + i)) (mem (b + i))"
proof -
  from i have "i < 65536" by (simp add: unat_count)
  then obtain l where l: "l \<in> set (grid 256 256)" and tid: "unat (thread_id l) = i"
    using grid_covers [of i] by blast
  from l have "l \<in> set (sort_key order (grid 256 256))"
    by simp
  then have "snd (run_lanes (vectorAddition a b c count) (sort_key order (grid 256 256)) mem)
      (c + unat (thread_id l)) = fadd (mem (a + unat (thread_id l))) (mem (b + unat (thread_id l)))"
    using i by (intro run_lanes_value [OF r]) (simp_all add: tid)
  then show ?thesis
    by (simp add: launch_def blocks_per_grid_eq threads_per_block_def tid)
qed

lemma launch_inputs:
  assumes r: "restrict a b c count" and i: "i < unat count"
  shows "snd (launch order blocks threads (vectorAddition a b c count) mem) (a + i) = mem (a + i)"
    and "snd (launch order blocks threads (vectorAddition a b c count) mem) (b + i) = mem (b + i)"
  unfolding launch_def by (rule run_lanes_inputs [OF r i])+


text \<open>Every access of a launch is within the \<open>n\<close> cells of a buffer.\<close>

lemma vectorAddition_in_bounds:
  "x \<in> set (fst (vectorAddition a b c n l mem)) \<Longrightarrow>
   \<exists>j < unat n. access_addr x = a + j \<or> access_addr x = b + j \<or> access_addr x = c + j"
  by (cases "unat (thread_id l) < unat n")
    (auto simp: vectorAddition_in_range vectorAddition_out_of_range)

lemma run_lanes_in_bounds:
  "x \<in> set (fst (run_lanes (vectorAddition a b c n) ls mem)) \<Longrightarrow>
   \<exists>j < unat n. access_addr x = a + j \<or> access_addr x = b + j \<or> access_addr x = c + j"
proof (induction ls arbitrary: mem)
  case Nil
  then show ?case by simp
next
  case (Cons l ls)
  then consider "x \<in> set (fst (vectorAddition a b c n l mem))"
    | "x \<in> set (fst (run_lanes (vectorAddition a b c n) ls (snd (vectorAddition a b c n l mem))))"
    by (auto simp only: fst_run_lanes_Cons set_append)
  then show ?case
  proof cases
    case 1
    then show ?thesis by (rule vectorAddition_in_bounds)
  next
    case 2
    then show ?thesis by (rule Cons.IH)
  qed
qed

lemma launch_in_bounds:
  "x \<in> set (fst (launch order blocks threads (vectorAddition a b c n) mem)) \<Longrightarrow>
   \<exists>j < unat n. access_addr x = a + j \<or> access_addr x = b + j \<or> access_addr x = c + j"
  unfolding launch_def by (rule run_lanes_in_bounds)


text \<open>
  Every order of the lanes of the grid is the order of a launch: a list with the lanes of
  the grid, each once, is the grid sorted by the position in that list.
\<close>

lemma position_nth:
  assumes d: "distinct ls" and i: "i < length ls"
  shows "length (takeWhile (\<lambda>x. x \<noteq> ls ! i) ls) = i"
proof -
  have "takeWhile (\<lambda>x. x \<noteq> ls ! i) ls = take i ls"
  proof (rule takeWhile_eq_take_P_nth)
    fix j
    assume "j < i" and "j < length ls"
    then show "ls ! j \<noteq> ls ! i"
      using d i by (simp add: nth_eq_iff_index_eq)
  next
    show "\<not> ls ! i \<noteq> ls ! i" by simp
  qed
  then show ?thesis
    using i by simp
qed

lemma positions_upt:
  assumes d: "distinct ls"
  shows "map (\<lambda>l. length (takeWhile (\<lambda>x. x \<noteq> l) ls)) ls = [0 ..< length ls]"
  by (rule nth_equalityI) (simp_all add: position_nth [OF d])

lemma sort_key_position:
  assumes d: "distinct ls" and dx: "distinct xs" and s: "set ls = set xs"
  shows "sort_key (\<lambda>l. length (takeWhile (\<lambda>x. x \<noteq> l) ls)) xs = ls"
proof -
  let ?f = "\<lambda>l. length (takeWhile (\<lambda>x. x \<noteq> l) ls)"
  let ?ys = "sort_key ?f xs"
  have "distinct (map ?f ls)"
    by (simp add: positions_upt [OF d])
  then have inj: "inj_on ?f (set ls)"
    by (simp add: distinct_map)
  have "sorted (map ?f ?ys)" and "sorted (map ?f ls)"
    by (simp_all add: positions_upt [OF d])
  moreover have "distinct (map ?f ?ys)" and "distinct (map ?f ls)"
    using inj d dx s by (simp_all add: distinct_map)
  moreover have "set (map ?f ?ys) = set (map ?f ls)"
    using s by simp
  ultimately have "map ?f ?ys = map ?f ls"
    by (intro sorted_distinct_set_unique)
  moreover have "inj_on ?f (set ?ys \<union> set ls)"
    using inj s by simp
  ultimately show ?thesis
    by (simp only: inj_on_map_eq_map)
qed

lemma launch_any_order:
  assumes d: "distinct ls" and s: "set ls = set (grid blocks_per_grid threads_per_block)"
  shows "\<exists>order. launch order blocks_per_grid threads_per_block kern mem = run_lanes kern ls mem"
proof -
  have "distinct (grid blocks_per_grid threads_per_block)"
    by (simp add: blocks_per_grid_eq threads_per_block_def distinct_grid)
  with d have "sort_key (\<lambda>l. length (takeWhile (\<lambda>x. x \<noteq> l) ls))
      (grid blocks_per_grid threads_per_block) = ls"
    using s by (rule sort_key_position)
  then have "launch (\<lambda>l. length (takeWhile (\<lambda>x. x \<noteq> l) ls)) blocks_per_grid threads_per_block
      kern mem = run_lanes kern ls mem"
    by (simp only: launch_def)
  then show ?thesis
    by (intro exI [where x = "\<lambda>l. length (takeWhile (\<lambda>x. x \<noteq> l) ls)"])
qed


lemma feq_self: "feq x x \<longleftrightarrow> x \<noteq> NaN"
  by (cases x) auto

lemma fadd_finite: "isfinite x \<Longrightarrow> isfinite y \<Longrightarrow> fadd x y \<noteq> NaN"
  by (cases x; cases y) (auto simp: Let_def fround_def)

lemma fround_small:
  assumes "n < 2 ^ 53"
  shows "fround s n 1 = Finite s n"
proof -
  from assms have "bitlen n \<le> 53"
    by (simp only: bitlen_le_iff)
  then have "2 ^ (bitlen n - 53) dvd n"
    by simp
  then have "round_mag (n * 1) 1 = n"
    by (intro round_mag_exact) simp_all
  moreover have "n < 2 ^ 2098"
    using assms less_trans [of n "2 ^ 53" "2 ^ 2098"] by simp
  ultimately show ?thesis
    by (simp add: fround_def Let_def)
qed

section \<open>Properties of the validation loop and of \<open>main\<close>\<close>

lemma fround_nonneg: "fge (fround False a b) zero"
  by (simp add: fround_def fge_def zero_def sval_def Let_def)

lemma literal_nonneg: "fge (literal p q) zero"
  by (simp add: literal_def fround_nonneg)

lemma isClose_test:
  "isClose x y (literal 1 (10 ^ 8)) (literal 1 (10 ^ 16)) = Inr 1
   \<or> isClose x y (literal 1 (10 ^ 8)) (literal 1 (10 ^ 16)) = Inr 0"
  by (simp add: isClose_result [OF literal_nonneg literal_nonneg])

lemma validate_done: "\<not> i < n \<Longrightarrow> validate n i ha hb hc = ([], Passed)"
  by (simp add: validate.simps)

lemma validate_close:
  "i < n \<Longrightarrow> close_at ha hb hc i \<Longrightarrow>
   validate n i ha hb hc =
     (i # fst (validate n (i + 1) ha hb hc), snd (validate n (i + 1) ha hb hc))"
  by (subst validate.simps) (simp add: close_at_def Let_def split_def)

lemma validate_not_close:
  "i < n \<Longrightarrow> \<not> close_at ha hb hc i \<Longrightarrow>
   validate n i ha hb hc = ([i], Failed i (fadd (ha ! i) (hb ! i)) (hc ! i))"
  using isClose_test [of "fadd (ha ! i) (hb ! i)" "hc ! i"]
  by (subst validate.simps) (auto simp: close_at_def Let_def)

lemma validate_passed:
  "(\<And>j. i \<le> j \<Longrightarrow> j < n \<Longrightarrow> close_at ha hb hc j) \<Longrightarrow>
   validate n i ha hb hc = ([i ..< n], Passed)"
proof (induction "n - i" arbitrary: i)
  case 0
  then show ?case by (simp add: validate_done)
next
  case (Suc d)
  then have i: "i < n" and d: "d = n - (i + 1)"
    by simp_all
  have "validate n (i + 1) ha hb hc = ([i + 1 ..< n], Passed)"
    using d Suc.prems by (intro Suc.hyps(1)) simp_all
  moreover have "close_at ha hb hc i"
    using i by (intro Suc.prems) simp_all
  ultimately show ?case
    using i by (simp add: validate_close upt_conv_Cons)
qed

lemma validate_failed:
  "i \<le> k \<Longrightarrow> k < n \<Longrightarrow> (\<And>j. i \<le> j \<Longrightarrow> j < k \<Longrightarrow> close_at ha hb hc j) \<Longrightarrow>
   \<not> close_at ha hb hc k \<Longrightarrow>
   validate n i ha hb hc = ([i ..< Suc k], Failed k (fadd (ha ! k) (hb ! k)) (hc ! k))"
proof (induction "k - i" arbitrary: i)
  case 0
  then have "i = k" by simp
  with 0 show ?case by (simp add: validate_not_close)
next
  case (Suc d)
  then have i: "i < k" and d: "d = k - (i + 1)"
    by simp_all
  have "validate n (i + 1) ha hb hc = ([i + 1 ..< Suc k], Failed k (fadd (ha ! k) (hb ! k)) (hc ! k))"
    using d i Suc.prems by (intro Suc.hyps(1)) simp_all
  moreover have "close_at ha hb hc i"
    using i by (intro Suc.prems) simp_all
  ultimately show ?case
    using i Suc.prems(2) by (simp add: validate_close upt_conv_Cons)
qed

lemma validate_not_asserted: "snd (validate n i ha hb hc) \<noteq> Asserted e"
proof (induction "n - i" arbitrary: i)
  case 0
  then show ?case by (simp add: validate_done)
next
  case (Suc d)
  then have i: "i < n" and d: "d = n - (i + 1)"
    by simp_all
  show ?case
  proof (cases "close_at ha hb hc i")
    case True
    then show ?thesis
      using i Suc.hyps(1) [OF d] by (simp add: validate_close)
  next
    case False
    then show ?thesis
      using i by (simp add: validate_not_close)
  qed
qed

lemma main_validation:
  "transferred rt \<Longrightarrow>
   main rt = validation rt before_validation (unat count)
               (fst (host_inputs rt)) (snd (host_inputs rt)) (host_result rt)"
  by (simp add: transferred_def main_def Let_def split_def host_inputs_def host_result_def
      before_validation_def)


lemma stdout_append: "stdout (xs @ ys) = stdout xs @ stdout ys"
  by (induction xs rule: stdout.induct) simp_all

lemma stderr_append: "stderr (xs @ ys) = stderr xs @ stderr ys"
  by (induction xs rule: stderr.induct) simp_all

lemma printf_zu_digits: "set (printf_zu n) \<subseteq> set ''0123456789''"
proof (induction n rule: printf_zu.induct)
  case (1 n)
  have digit: "''0123456789'' ! d \<in> set ''0123456789''" if "d < 10" for d
    using that by (intro nth_mem) simp
  show ?case
  proof (cases "n < 10")
    case True
    then show ?thesis
      using digit [of n] by (subst printf_zu.simps) simp
  next
    case False
    have "n mod 10 < 10" by simp
    then show ?thesis
      using False 1 digit [of "n mod 10"] by (subst printf_zu.simps) simp
  qed
qed

lemma printf_zu_plain: "newline \<notin> set (printf_zu n)"
  using printf_zu_digits [of n] by (auto simp: newline_def)

lemma vector_name_plain: "newline \<notin> set (vector_name v)"
  by (cases v) (simp_all add: newline_def)

lemma diagnostic_lineI:
  "(plain_texts rt \<Longrightarrow> newline \<notin> set m) \<Longrightarrow> diagnostic_line rt (m @ [newline])"
  by (simp add: diagnostic_line_def)

lemma plain_cudaGetErrorString: "plain_texts rt \<Longrightarrow> newline \<notin> set (cudaGetErrorString rt e)"
  by (simp add: plain_texts_def)

lemma plain_printf_f: "plain_texts rt \<Longrightarrow> newline \<notin> set (printf_f rt d s x)"
  by (simp add: plain_texts_def)

lemmas plain = printf_zu_plain vector_name_plain plain_cudaGetErrorString plain_printf_f

lemma host_alloc_error_line: "diagnostic_line rt (host_alloc_error v)"
  unfolding host_alloc_error_def append_assoc [symmetric]
  by (rule diagnostic_lineI) (simp add: plain, simp add: newline_def)

lemma device_alloc_error_line: "diagnostic_line rt (device_alloc_error rt v)"
  unfolding device_alloc_error_def append_assoc [symmetric]
  by (rule diagnostic_lineI) (simp add: plain, simp add: newline_def)

lemma copy_to_device_error_line: "diagnostic_line rt (copy_to_device_error rt v)"
  unfolding copy_to_device_error_def append_assoc [symmetric]
  by (rule diagnostic_lineI) (simp add: plain, simp add: newline_def)

lemma launch_error_line: "diagnostic_line rt (launch_error rt)"
  unfolding launch_error_def append_assoc [symmetric]
  by (rule diagnostic_lineI) (simp add: plain, simp add: newline_def)

lemma copy_to_host_error_line: "diagnostic_line rt (copy_to_host_error rt v)"
  unfolding copy_to_host_error_def append_assoc [symmetric]
  by (rule diagnostic_lineI) (simp add: plain, simp add: newline_def)

lemma test_failed_line: "diagnostic_line rt (test_failed rt i x y)"
  unfolding test_failed_def append_assoc [symmetric]
  by (rule diagnostic_lineI) (simp add: plain, simp add: newline_def)

lemma free_error_line: "diagnostic_line rt (free_error rt v)"
  unfolding free_error_def append_assoc [symmetric]
  by (rule diagnostic_lineI) (simp add: plain, simp add: newline_def)

lemmas lines = host_alloc_error_line device_alloc_error_line copy_to_device_error_line
  launch_error_line copy_to_host_error_line test_failed_line free_error_line


lemma literal_le_half:
  assumes q: "0 < q" and le: "2 * p \<le> q"
  shows "\<exists>m \<le> 2 ^ 1073. literal p q = Finite False m"
proof -
  have "p * 2 ^ 1074 = (2 * p) * 2 ^ 1073"
    by simp
  also have "\<dots> \<le> q * 2 ^ 1073"
    using le by (rule mult_le_mono1)
  finally have "round_mag (p * 2 ^ 1074) q \<le> round_mag (2 ^ 1073 * q) q"
    using q by (intro round_mag_mono) (simp_all add: mult.commute)
  also have "\<dots> = 2 ^ 1073"
    using q by (rule round_mag_power2)
  finally have m: "round_mag (p * 2 ^ 1074) q \<le> 2 ^ 1073" .
  moreover have "(2::nat) ^ 1073 < 2 ^ 2098"
    by (rule power_strict_increasing) simp_all
  ultimately have "\<not> 2 ^ 2098 \<le> round_mag (p * 2 ^ 1074) q"
    by simp
  then have "literal p q = Finite False (round_mag (p * 2 ^ 1074) q)"
    by (simp add: literal_def fround_def)
  with m show ?thesis by blast
qed

lemma not_close_0_2:
  "isClose (Finite False 0) (Finite False (2 ^ 1075)) (literal 1 (10 ^ 8)) (literal 1 (10 ^ 16)) = Inr 0"
proof -
  obtain r where r: "literal 1 (10 ^ 8) = Finite False r" "r \<le> 2 ^ 1073"
    using literal_le_half [of "10 ^ 8" 1] by auto
  obtain a where a: "literal 1 (10 ^ 16) = Finite False a" "a \<le> 2 ^ 1073"
    using literal_le_half [of "10 ^ 16" 1] by auto
  have lt: "(2::nat) ^ 1073 < 2 ^ 1075" "(2::nat) ^ 1074 < 2 ^ 1075" "(2::nat) ^ 1075 < 2 ^ 2098"
    by simp_all
  have "round_mag (2 ^ 1075 * 1) 1 = 2 ^ 1075"
    by (rule round_mag_power2) simp
  then have d: "fabs (fsub (Finite False 0) (Finite False (2 ^ 1075))) = Finite False (2 ^ 1075)"
    using lt by (simp add: fsub_def sval_def fround_def)
  have "r * 2 ^ 1075 \<le> 2 ^ 1073 * 2 ^ 1075"
    using r(2) by (rule mult_le_mono1)
  also have "(2::nat) ^ 1073 * 2 ^ 1075 = 2 ^ 1074 * 2 ^ 1074"
    by (simp only: power_add [symmetric]) simp
  finally have "round_mag (r * 2 ^ 1075) (2 ^ 1074) \<le> round_mag (2 ^ 1074 * 2 ^ 1074) (2 ^ 1074)"
    by (intro round_mag_mono) simp_all
  also have "\<dots> = 2 ^ 1074"
    by (rule round_mag_power2) simp
  finally have p: "round_mag (r * 2 ^ 1075) (2 ^ 1074) \<le> 2 ^ 1074" .
  with lt have "\<not> 2 ^ 2098 \<le> round_mag (r * 2 ^ 1075) (2 ^ 1074)"
    by simp
  then have m: "fmul (Finite False r) (Finite False (2 ^ 1075))
      = Finite False (round_mag (r * 2 ^ 1075) (2 ^ 1074))"
    by (simp add: fround_def)
  have z: "fmul (Finite False r) (Finite False 0) = Finite False 0"
    by (simp add: fround_def round_mag_0)
  have "\<not> feq (Finite False 0) (Finite False (2 ^ 1075))"
    by (simp add: sval_def)
  moreover have "\<not> fle (Finite False (2 ^ 1075)) (Finite False a)"
    using a(2) lt by (simp add: sval_def)
  moreover have "\<not> fle (Finite False (2 ^ 1075)) (Finite False 0)"
    by (simp add: sval_def)
  moreover have "\<not> fle (Finite False (2 ^ 1075)) (Finite False (round_mag (r * 2 ^ 1075) (2 ^ 1074)))"
    using p lt by (simp add: sval_def)
  ultimately show ?thesis
    unfolding isClose_result [OF literal_nonneg literal_nonneg] d
    unfolding r a fabs.simps m z
    by simp
qed


lemma fail_failure: "quiet t \<Longrightarrow> diagnostic_line rt m \<Longrightarrow> failure rt (fail t m)"
  by (simp add: quiet_def failure_def fail_def stdout_append stderr_append)

lemma release_success:
  assumes "cudaFree_result rt A = cudaSuccess" "cudaFree_result rt B = cudaSuccess"
    "cudaFree_result rt C = cudaSuccess"
  shows "release rt t = (t @ [CudaFree A, CudaFree B, CudaFree C, Free A, Free B, Free C,
    Stdout done_message], Exit EXIT_SUCCESS)"
  using assms by (simp add: release_def)

lemma release_failure:
  assumes "quiet t"
    and "\<not> (cudaFree_result rt A = cudaSuccess \<and> cudaFree_result rt B = cudaSuccess
      \<and> cudaFree_result rt C = cudaSuccess)"
  shows "failure rt (release rt t)"
  using assms
  by (auto simp: release_def Let_def quiet_def stdout_append stderr_append lines
      intro!: fail_failure)

lemma validation_passed:
  "snd (validate n 0 ha hb hc) = Passed \<Longrightarrow> validation rt t n ha hb hc = release rt t"
  by (simp add: validation_def)

lemma validation_failure:
  assumes "quiet t" and "snd (validate n 0 ha hb hc) \<noteq> Passed"
  shows "failure rt (validation rt t n ha hb hc)"
proof (cases "snd (validate n 0 ha hb hc)")
  case Passed
  with assms show ?thesis by simp
next
  case (Failed i x y)
  then show ?thesis
    using assms(1) by (simp add: validation_def fail_failure lines)
next
  case (Asserted e)
  then show ?thesis
    using validate_not_asserted [of n 0 ha hb hc e] by simp
qed

lemma quiet_before_validation: "quiet before_validation"
  by (simp add: quiet_def before_validation_def)

lemma main_not_transferred:
  "\<not> transferred rt \<Longrightarrow> failure rt (main rt) \<and> (\<forall>e \<in> set (fst (main rt)). \<not> is_free e)"
  by (auto simp: transferred_def main_def Let_def split_def fail_def failure_def lines)

lemma main_computed:
  "computed rt \<Longrightarrow> main rt = release rt before_validation"
  by (simp add: computed_def validated_def main_validation validation_passed)

lemma main_not_validated:
  "transferred rt \<Longrightarrow> \<not> validated rt \<Longrightarrow>
   failure rt (main rt) \<and> (\<forall>e \<in> set (fst (main rt)). \<not> is_free e)"
proof -
  assume t: "transferred rt" and v: "\<not> validated rt"
  let ?ha = "fst (host_inputs rt)" and ?hb = "snd (host_inputs rt)" and ?hc = "host_result rt"
  have m: "main rt = validation rt before_validation (unat count) ?ha ?hb ?hc"
    using t by (rule main_validation)
  have f: "failure rt (main rt)"
    unfolding m using quiet_before_validation v
    by (intro validation_failure) (simp_all add: validated_def)
  obtain i x y where "snd (validate (unat count) 0 ?ha ?hb ?hc) = Failed i x y"
    using v validate_not_asserted [of "unat count" 0 ?ha ?hb ?hc]
    by (cases "snd (validate (unat count) 0 ?ha ?hb ?hc)") (auto simp: validated_def)
  then have "fst (main rt) = before_validation @ [Stderr (test_failed rt i x y)]"
    by (simp add: m validation_def fail_def)
  then have "\<forall>e \<in> set (fst (main rt)). \<not> is_free e"
    by (simp add: before_validation_def)
  with f show ?thesis by blast
qed


lemma populate_done: "\<not> i < n \<Longrightarrow> populate rt n i (ha, hb) = (ha, hb)"
  by (simp add: populate.simps)

lemma populate_step:
  "i < n \<Longrightarrow> populate rt n i (ha, hb) =
     populate rt n (Suc i)
       (ha [i := fmul (libm_sin rt (double_of_size_t i)) (libm_sin rt (double_of_size_t i))],
        hb [i := fmul (libm_cos rt (double_of_size_t i)) (libm_cos rt (double_of_size_t i))])"
  by (subst populate.simps) simp

lemma populate_nth:
  "n \<le> length ha \<Longrightarrow> n \<le> length hb \<Longrightarrow> j < n \<Longrightarrow>
   fst (populate rt n i (ha, hb)) ! j =
     (if i \<le> j then fmul (libm_sin rt (double_of_size_t j)) (libm_sin rt (double_of_size_t j))
      else ha ! j)
   \<and> snd (populate rt n i (ha, hb)) ! j =
     (if i \<le> j then fmul (libm_cos rt (double_of_size_t j)) (libm_cos rt (double_of_size_t j))
      else hb ! j)"
proof (induction "n - i" arbitrary: i ha hb)
  case 0
  then show ?case by (simp add: populate_done)
next
  case (Suc d)
  then have i: "i < n" and d: "d = n - Suc i"
    by simp_all
  let ?ha = "ha [i := fmul (libm_sin rt (double_of_size_t i)) (libm_sin rt (double_of_size_t i))]"
  let ?hb = "hb [i := fmul (libm_cos rt (double_of_size_t i)) (libm_cos rt (double_of_size_t i))]"
  have IH: "fst (populate rt n (Suc i) (?ha, ?hb)) ! j =
      (if Suc i \<le> j
       then fmul (libm_sin rt (double_of_size_t j)) (libm_sin rt (double_of_size_t j))
       else ?ha ! j)
    \<and> snd (populate rt n (Suc i) (?ha, ?hb)) ! j =
      (if Suc i \<le> j
       then fmul (libm_cos rt (double_of_size_t j)) (libm_cos rt (double_of_size_t j))
       else ?hb ! j)"
    using d Suc.prems by (intro Suc.hyps(1)) simp_all
  consider "j < i" | "j = i" | "Suc i \<le> j"
    by linarith
  then show ?case
  proof cases
    case 1
    then show ?thesis
      using IH Suc.prems i by (simp add: populate_step)
  next
    case 2
    then show ?thesis
      using IH Suc.prems i by (simp add: populate_step)
  next
    case 3
    then show ?thesis
      using IH Suc.prems i by (simp add: populate_step)
  qed
qed

lemma host_inputs_nth:
  assumes "j < unat count"
  shows "fst (host_inputs rt) ! j =
      fmul (libm_sin rt (double_of_size_t j)) (libm_sin rt (double_of_size_t j))"
    and "snd (host_inputs rt) ! j =
      fmul (libm_cos rt (double_of_size_t j)) (libm_cos rt (double_of_size_t j))"
  using assms populate_nth [of "unat count" "map (uninitialised rt A) [0 ..< unat count]"
      "map (uninitialised rt B) [0 ..< unat count]" j rt 0]
  by (simp_all add: host_inputs_def)

lemma copy_to_device_inside: "i < n \<Longrightarrow> copy_to_device p n xs mem (p + i) = xs ! i"
  by (simp add: copy_to_device_def)

lemma copy_to_device_outside:
  "apart p q n \<Longrightarrow> i < n \<Longrightarrow> copy_to_device p n xs mem (q + i) = mem (q + i)"
  by (auto simp: copy_to_device_def apart_def)

lemma apart_sym: "apart p q n \<Longrightarrow> apart q p n"
  by (auto simp: apart_def)

lemma host_result_nth:
  assumes s: "separate_buffers rt" and i: "i < unat count"
  shows "host_result rt ! i = fadd (fst (host_inputs rt) ! i) (snd (host_inputs rt) ! i)"
proof -
  let ?a = "device_ptr rt A" and ?b = "device_ptr rt B" and ?c = "device_ptr rt C"
  let ?n = "unat count"
  let ?mem1 = "copy_to_device ?a ?n (fst (host_inputs rt)) (device_memory rt)"
  let ?mem2 = "copy_to_device ?b ?n (snd (host_inputs rt)) ?mem1"
  have ab: "apart ?b ?a ?n" and r: "restrict ?a ?b ?c count"
    using s by (simp_all add: separate_buffers_def restrict_def apart_sym)
  have "host_result rt ! i =
      snd (launch (lane_order rt) blocks_per_grid threads_per_block
        (vectorAddition ?a ?b ?c count) ?mem2) (?c + i)"
    using i by (simp add: host_result_def copy_from_device_def)
  also have "\<dots> = fadd (?mem2 (?a + i)) (?mem2 (?b + i))"
    using r i by (rule launch_value)
  also have "?mem2 (?b + i) = snd (host_inputs rt) ! i"
    using i by (rule copy_to_device_inside)
  also have "?mem2 (?a + i) = ?mem1 (?a + i)"
    using ab i by (rule copy_to_device_outside)
  also have "?mem1 (?a + i) = fst (host_inputs rt) ! i"
    using i by (rule copy_to_device_inside)
  finally show ?thesis .
qed

lemma isClose_same:
  "fge r zero \<Longrightarrow> fge a zero \<Longrightarrow> x \<noteq> NaN \<Longrightarrow> isClose x x r a = Inr 1"
  by (cases x) (simp_all add: isClose_result)

lemma fround_not_NaN: "fround s a b \<noteq> NaN"
  by (simp add: fround_def Let_def)

lemma square_cases: "x \<noteq> NaN \<Longrightarrow> (\<exists>n. fmul x x = Finite False n) \<or> fmul x x = Infinity False"
  by (cases x) (auto simp: fround_def Let_def)

lemma sum_of_squares_not_NaN:
  "x \<noteq> NaN \<Longrightarrow> y \<noteq> NaN \<Longrightarrow> fadd (fmul x x) (fmul y y) \<noteq> NaN"
  using square_cases [of x] square_cases [of y]
  by (auto simp: fround_not_NaN Let_def split: if_splits)

lemma validated_if_no_NaN:
  assumes s: "separate_buffers rt"
    and sin: "\<And>x. libm_sin rt x \<noteq> NaN" and cos: "\<And>x. libm_cos rt x \<noteq> NaN"
  shows "validated rt"
proof -
  have "close_at (fst (host_inputs rt)) (snd (host_inputs rt)) (host_result rt) i"
    if i: "i < unat count" for i
    unfolding close_at_def host_result_nth [OF s i] host_inputs_nth [OF i]
    by (intro isClose_same literal_nonneg sum_of_squares_not_NaN sin cos)
  then have "validate (unat count) 0 (fst (host_inputs rt)) (snd (host_inputs rt)) (host_result rt)
      = ([0 ..< unat count], Passed)"
    by (intro validate_passed) simp_all
  then show ?thesis
    by (simp add: validated_def)
qed

lemma successful_all_well: "successful all_well"
proof -
  have "separate_buffers all_well"
    by (simp add: separate_buffers_def all_well_def apart_def unat_count)
  then have "validated all_well"
    by (rule validated_if_no_NaN) (simp_all add: all_well_def zero_def one_def)
  then show ?thesis
    by (simp add: successful_def computed_def transferred_def all_well_def)
qed


lemma printf_fixed_plain: "newline \<notin> set (printf_fixed d s x)"
proof (cases x)
  case (Finite sign n)
  have "newline \<notin> set (replicate k (CHR ''0''))" for k
    by (simp add: newline_def)
  moreover have "newline \<notin> set ''-''" and "newline \<notin> set ''.''"
    by (simp_all add: newline_def)
  ultimately show ?thesis
    unfolding Finite printf_fixed_def Let_def real_type.case
    by (simp only: set_append Un_iff printf_zu_plain split: if_split) simp
next
  case (Infinity sign)
  then show ?thesis
    by (simp add: printf_fixed_def newline_def)
next
  case NaN
  then show ?thesis
    by (simp add: printf_fixed_def newline_def)
qed

lemma plain_texts_all_well: "plain_texts all_well"
proof -
  have "newline \<notin> set ''out of memory''"
    by (simp add: newline_def)
  then show ?thesis
    by (simp add: plain_texts_def all_well_def printf_fixed_plain)
qed

lemma rne_div_exact: "0 < b \<Longrightarrow> rne_div (m * b) b = m"
  by (simp add: rne_div_def Let_def)

lemma printf_zu_0: "printf_zu 0 = ''0''"
  by (subst printf_zu.simps) simp

lemma printf_zu_1: "printf_zu 1 = ''1''"
  by (subst printf_zu.simps) simp

lemma printf_zu_2: "printf_zu 2 = ''2''"
  by (subst printf_zu.simps) (simp add: eval_nat_numeral)

lemma replicate_20: "replicate 20 c = [c, c, c, c, c, c, c, c, c, c, c, c, c, c, c, c, c, c, c, c]"
  by (simp add: eval_nat_numeral)

lemma quotient_0: "rne_div (0 * 10 ^ 21) (2 ^ 1074) = 0"
  using rne_div_exact [of "2 ^ 1074" 0] by simp

lemma quotient_2: "rne_div (2 ^ 1075 * 10 ^ 21) (2 ^ 1074) = 2 * 10 ^ 21"
proof -
  have "(2::nat) ^ 1075 * 10 ^ 21 = (2 * 10 ^ 21) * 2 ^ 1074"
    by simp
  then show ?thesis
    by (simp only: rne_div_exact zero_less_power zero_less_numeral)
qed

lemma printf_fixed_0: "printf_fixed 21 s (Finite False 0) = ''0.000000000000000000000''"
  unfolding printf_fixed_def real_type.case Let_def quotient_0
  by (simp add: printf_zu_0 replicate_20)

lemma printf_fixed_2: "printf_fixed 21 s (Finite False (2 ^ 1075)) = ''2.000000000000000000000''"
  unfolding printf_fixed_def real_type.case Let_def quotient_2
  by (simp add: printf_zu_0 printf_zu_2 replicate_20)

lemma printf_fixed_NaN: "printf_fixed d s NaN = (if s then ''-nan'' else ''nan'')"
  by (simp add: printf_fixed_def)

section \<open>Claims about \<open>isClose\<close>\<close>

text \<open>
  Claim C1. For finite doubles \<open>x\<close> and \<open>y\<close> and tolerances \<open>rel_tol >= 0\<close> and
  \<open>abs_tol >= 0\<close>, \<open>isClose\<close> returns true (the \<^verbatim>\<open>int\<close> 1) if and only if \<open>x == y\<close>, or
  \<open>|x - y| <= abs_tol\<close>, or \<open>|x - y| <= rel_tol * |x|\<close>, or \<open>|x - y| <= rel_tol * |y|\<close>, and
  false (0) otherwise; it returns true when \<open>x\<close> and \<open>y\<close> are identical, and false when
  \<open>|x - y| > abs_tol\<close> and \<open>|x - y| > rel_tol * max(|x|, |y|)\<close>. The difference, the
  absolute values, the products and the comparisons are those of the code: the double
  operations \<open>fsub\<close>, \<open>fabs\<close>, \<open>fmul\<close>, \<open>fle\<close>, \<open>feq\<close>.
\<close>

theorem isClose_finite:
  assumes "fge rel_tol zero" and "fge abs_tol zero" and "isfinite x" and "isfinite y"
  shows "isClose x y rel_tol abs_tol =
           Inr (if feq x y
                 \<or> fle (fabs (fsub x y)) abs_tol
                 \<or> fle (fabs (fsub x y)) (fmul rel_tol (fabs x))
                 \<or> fle (fabs (fsub x y)) (fmul rel_tol (fabs y)) then 1 else 0)
         \<and> (x = y \<longrightarrow> isClose x y rel_tol abs_tol = Inr 1)
         \<and> (fgt (fabs (fsub x y)) abs_tol
              \<and> fgt (fabs (fsub x y)) (fmul rel_tol (fmax (fabs x) (fabs y)))
            \<longrightarrow> isClose x y rel_tol abs_tol = Inr 0)"
proof (intro conjI impI)
  show "isClose x y rel_tol abs_tol =
          Inr (if feq x y
                \<or> fle (fabs (fsub x y)) abs_tol
                \<or> fle (fabs (fsub x y)) (fmul rel_tol (fabs x))
                \<or> fle (fabs (fsub x y)) (fmul rel_tol (fabs y)) then 1 else 0)"
    using assms by (simp add: isClose_result)
next
  assume "x = y"
  then show "isClose x y rel_tol abs_tol = Inr 1"
    using assms by (simp add: isClose_identical)
next
  assume "fgt (fabs (fsub x y)) abs_tol
    \<and> fgt (fabs (fsub x y)) (fmul rel_tol (fmax (fabs x) (fabs y)))"
  then show "isClose x y rel_tol abs_tol = Inr 0"
    using assms by (intro isClose_far) simp_all
qed

theorem isClose_finite_witness:
  "isClose (Finite False 3) (Finite False 3) zero (Finite False 1) = Inr 1
   \<and> isClose (Finite False 1) (Finite False 3) zero (Finite False 1) = Inr 0"
proof
  have tol: "fge zero zero" "fge (Finite False 1) zero"
    by (simp_all add: fge_def zero_def sval_def)
  show "isClose (Finite False 3) (Finite False 3) zero (Finite False 1) = Inr 1"
    using isClose_finite [OF tol, of "Finite False 3" "Finite False 3"] by simp
  have d: "fabs (fsub (Finite False 1) (Finite False 3)) = Finite False 2"
    by (simp add: fsub_def sval_def fround_def round_mag_def round_shift_def rne_div_def
        bitlen_numeral)
  have m: "fmul zero (fmax (fabs (Finite False 1)) (fabs (Finite False 3))) = zero"
    by (simp add: fmax_def sval_def zero_def fround_def round_mag_0)
  have "fgt (fabs (fsub (Finite False 1) (Finite False 3))) (Finite False 1)
    \<and> fgt (fabs (fsub (Finite False 1) (Finite False 3)))
        (fmul zero (fmax (fabs (Finite False 1)) (fabs (Finite False 3))))"
    unfolding d m by (simp add: fgt_def zero_def sval_def)
  moreover have "isfinite (Finite False 1)" and "isfinite (Finite False 3)"
    by simp_all
  ultimately show "isClose (Finite False 1) (Finite False 3) zero (Finite False 1) = Inr 0"
    using isClose_finite [OF tol, of "Finite False 1" "Finite False 3"] by blast
qed

text \<open>
  Claim C2, as stated, fails: the claim has \<open>isClose(NaN, NaN, rel_tol, abs_tol)\<close> return
  true, but for a non-finite argument the code returns \<^verbatim>\<open>x == y\<close>, and a NaN is not
  equal to itself.
\<close>

theorem isClose_NaN_NaN_counterexample: "isClose NaN NaN zero zero = Inr 0"
  by (simp add: isClose_def fge_def zero_def sval_def)

text \<open>
  Claim C2, amended. For every \<open>rel_tol >= 0\<close> and \<open>abs_tol >= 0\<close>,
  \<open>isClose(NaN, NaN, rel_tol, abs_tol)\<close> returns false, \<open>isClose(NaN, 1.0, rel_tol, abs_tol)\<close>
  returns false and \<open>isClose(+inf, +inf, rel_tol, abs_tol)\<close> returns true; when either
  argument is non-finite, \<open>isClose\<close> returns the result of \<^verbatim>\<open>x == y\<close>, which is true exactly
  when \<open>x\<close> and \<open>y\<close> are the same infinity, and false whenever an argument is a NaN.
\<close>

theorem isClose_nonfinite:
  assumes "fge rel_tol zero" and "fge abs_tol zero"
  shows "isClose NaN NaN rel_tol abs_tol = Inr 0
         \<and> isClose NaN one rel_tol abs_tol = Inr 0
         \<and> isClose (Infinity False) (Infinity False) rel_tol abs_tol = Inr 1
         \<and> (\<not> (isfinite x \<and> isfinite y) \<longrightarrow>
              isClose x y rel_tol abs_tol = Inr (if feq x y then 1 else 0)
              \<and> (feq x y \<longleftrightarrow> (x = Infinity False \<and> y = Infinity False)
                               \<or> (x = Infinity True \<and> y = Infinity True)))"
proof (intro conjI impI)
  assume nf: "\<not> (isfinite x \<and> isfinite y)"
  then show "isClose x y rel_tol abs_tol = Inr (if feq x y then 1 else 0)"
    using assms by (intro isClose_not_finite) simp_all
  show "feq x y \<longleftrightarrow> (x = Infinity False \<and> y = Infinity False)
                    \<or> (x = Infinity True \<and> y = Infinity True)"
    using nf by (cases x; cases y) auto
qed (simp_all add: isClose_result assms one_def)

theorem isClose_nonfinite_witness:
  "isClose NaN NaN zero zero = Inr 0
   \<and> isClose NaN one zero zero = Inr 0
   \<and> isClose (Infinity False) (Infinity False) zero zero = Inr 1
   \<and> isClose (Infinity True) (Infinity True) zero zero = Inr 1
   \<and> isClose (Infinity True) one zero zero = Inr 0"
proof -
  have tol: "fge zero zero"
    by (simp add: fge_def zero_def sval_def)
  show ?thesis
    using isClose_nonfinite [OF tol tol, of "Infinity True" "Infinity True"]
      isClose_nonfinite [OF tol tol, of "Infinity True" one]
    by (simp add: one_def)
qed

text \<open>
  Claim C9. \<open>isClose\<close> is symmetric in its first two arguments: for all doubles \<open>x\<close> and
  \<open>y\<close> and all tolerances, \<open>isClose(x, y, rel_tol, abs_tol)\<close> and
  \<open>isClose(y, x, rel_tol, abs_tol)\<close> give the same result (also the same assertion failure
  when a tolerance is negative or a NaN).
\<close>

theorem isClose_symmetric: "isClose x y rel_tol abs_tol = isClose y x rel_tol abs_tol"
proof -
  have 1: "feq y x = feq x y"
    by (rule feq_sym)
  have 2: "fabs (fsub y x) = fabs (fsub x y)"
    by (rule fabs_fsub_sym)
  have 3: "(isfinite y \<and> isfinite x) = (isfinite x \<and> isfinite y)"
    by (rule conj_commute)
  have 4: "(A \<or> C \<or> B) = (A \<or> B \<or> C)" for A B C :: bool
    by blast
  show ?thesis
    unfolding isClose_def [of y x] 1 2 3
    unfolding isClose_def [of x y] Let_def 4 [of _ "fle (fabs (fsub x y)) (fmul rel_tol (fabs y))"]
    by (rule refl)
qed

section \<open>Claims about the kernel\<close>

text \<open>
  Claim C3. For every lane of \<open>vectorAddition\<close>, with \<open>i\<close> its global index
  \<^verbatim>\<open>thread_id\<close>, and every count \<open>n\<close>: if \<open>i\<close> is within \<open>[0, n)\<close> the lane reads \<open>a[i]\<close> and
  \<open>b[i]\<close> and writes \<open>c[i] = a[i] + b[i]\<close>; if \<open>i >= n\<close> the lane performs no operation (no
  access, memory unchanged); every access the lane makes is to \<open>a[j]\<close>, \<open>b[j]\<close> or \<open>c[j]\<close>
  with \<open>j < n\<close>, so none is out of bounds.
\<close>

theorem vectorAddition_lane:
  "(unat (thread_id l) < unat n \<longrightarrow>
      vectorAddition a b c n l mem =
        ([Read (a + unat (thread_id l)), Read (b + unat (thread_id l)),
          Write (c + unat (thread_id l))],
         mem (c + unat (thread_id l) :=
           fadd (mem (a + unat (thread_id l))) (mem (b + unat (thread_id l))))))
   \<and> (unat n \<le> unat (thread_id l) \<longrightarrow> vectorAddition a b c n l mem = ([], mem))
   \<and> (\<forall>x \<in> set (fst (vectorAddition a b c n l mem)).
         \<exists>j < unat n. access_addr x = a + j \<or> access_addr x = b + j \<or> access_addr x = c + j)"
proof (intro conjI impI ballI)
  fix x
  assume "x \<in> set (fst (vectorAddition a b c n l mem))"
  then show "\<exists>j < unat n. access_addr x = a + j \<or> access_addr x = b + j \<or> access_addr x = c + j"
    by (cases "unat (thread_id l) < unat n")
      (auto simp: vectorAddition_in_range vectorAddition_out_of_range)
qed (simp_all add: vectorAddition_in_range vectorAddition_out_of_range)

theorem vectorAddition_lane_witness:
  "vectorAddition 0 4 8 4 \<lparr>blockDim_x = 2, blockIdx_x = 1, threadIdx_x = 1\<rparr> (\<lambda>p. Finite False p)
     = ([Read 3, Read 7, Write 11], (\<lambda>p. Finite False p) (11 := Finite False 10))
   \<and> vectorAddition 0 4 8 4 \<lparr>blockDim_x = 2, blockIdx_x = 2, threadIdx_x = 1\<rparr> (\<lambda>p. Finite False p)
     = ([], \<lambda>p. Finite False p)"
proof -
  have 3: "unat (thread_id \<lparr>blockDim_x = 2, blockIdx_x = 1, threadIdx_x = 1\<rparr>) = 3"
    and 5: "unat (thread_id \<lparr>blockDim_x = 2, blockIdx_x = 2, threadIdx_x = 1\<rparr>) = 5"
    by (simp_all add: thread_id_def)
  show ?thesis
    using vectorAddition_lane [where l = "\<lparr>blockDim_x = 2, blockIdx_x = 1, threadIdx_x = 1\<rparr>"
        and n = 4 and a = 0 and b = 4 and c = 8 and mem = "\<lambda>p. Finite False p"]
      vectorAddition_lane [where l = "\<lparr>blockDim_x = 2, blockIdx_x = 2, threadIdx_x = 1\<rparr>"
        and n = 4 and a = 0 and b = 4 and c = 8 and mem = "\<lambda>p. Finite False p"]
    by (simp add: 3 5 sval_def fround_def round_mag_def round_shift_def rne_div_def
        bitlen_numeral)
qed

text \<open>
  Claim C10. A lane of \<open>vectorAddition\<close> leaves every cell other than \<open>c[i]\<close>, \<open>i\<close> its own
  global index, as it was; when \<open>i\<close> is not within \<open>[0, n)\<close> it leaves the whole memory as
  it was; its only write, if any, is to \<open>c[i]\<close>; and the input vectors \<open>a\<close> and \<open>b\<close> are
  not modified (they do not overlap \<open>c\<close>, as \<^verbatim>\<open>__restrict__\<close> promises).
\<close>

theorem vectorAddition_frame:
  "(\<forall>p. p \<noteq> c + unat (thread_id l) \<longrightarrow> snd (vectorAddition a b c n l mem) p = mem p)
   \<and> (unat n \<le> unat (thread_id l) \<longrightarrow> snd (vectorAddition a b c n l mem) = mem)
   \<and> (\<forall>x \<in> set (fst (vectorAddition a b c n l mem)).
         (\<exists>p. x = Read p) \<or> x = Write (c + unat (thread_id l)))
   \<and> (restrict a b c n \<longrightarrow>
        (\<forall>j < unat n. snd (vectorAddition a b c n l mem) (a + j) = mem (a + j)
                         \<and> snd (vectorAddition a b c n l mem) (b + j) = mem (b + j)))"
proof (intro conjI impI allI ballI)
  fix x
  assume "x \<in> set (fst (vectorAddition a b c n l mem))"
  then show "(\<exists>p. x = Read p) \<or> x = Write (c + unat (thread_id l))"
    by (cases "unat (thread_id l) < unat n")
      (auto simp: vectorAddition_in_range vectorAddition_out_of_range)
next
  fix j
  assume r: "restrict a b c n" and j: "j < unat n"
  show "snd (vectorAddition a b c n l mem) (a + j) = mem (a + j)"
    using run_lanes_inputs(1) [OF r j, of "[l]" mem] by (simp add: split_def)
  show "snd (vectorAddition a b c n l mem) (b + j) = mem (b + j)"
    using run_lanes_inputs(2) [OF r j, of "[l]" mem] by (simp add: split_def)
qed (simp_all add: vectorAddition_other vectorAddition_out_of_range)

theorem vectorAddition_frame_witness:
  "snd (vectorAddition 0 4 8 4 \<lparr>blockDim_x = 2, blockIdx_x = 1, threadIdx_x = 1\<rparr> (\<lambda>p. Finite False p)) 3
     = Finite False 3
   \<and> snd (vectorAddition 0 4 8 4 \<lparr>blockDim_x = 2, blockIdx_x = 1, threadIdx_x = 1\<rparr> (\<lambda>p. Finite False p)) 10
     = Finite False 10
   \<and> snd (vectorAddition 0 4 8 4 \<lparr>blockDim_x = 2, blockIdx_x = 2, threadIdx_x = 1\<rparr> (\<lambda>p. Finite False p))
     = (\<lambda>p. Finite False p)"
proof -
  have 3: "unat (thread_id \<lparr>blockDim_x = 2, blockIdx_x = 1, threadIdx_x = 1\<rparr>) = 3"
    and 5: "unat (thread_id \<lparr>blockDim_x = 2, blockIdx_x = 2, threadIdx_x = 1\<rparr>) = 5"
    by (simp_all add: thread_id_def)
  have r: "restrict 0 4 8 4"
    by (simp add: restrict_def apart_def)
  have j: "(3::nat) < unat (4 :: 64 word)"
    by simp
  show ?thesis
    using vectorAddition_frame [where l = "\<lparr>blockDim_x = 2, blockIdx_x = 1, threadIdx_x = 1\<rparr>"
        and n = 4 and a = 0 and b = 4 and c = 8 and mem = "\<lambda>p. Finite False p"]
      vectorAddition_frame [where l = "\<lparr>blockDim_x = 2, blockIdx_x = 2, threadIdx_x = 1\<rparr>"
        and n = 4 and a = 0 and b = 4 and c = 8 and mem = "\<lambda>p. Finite False p"] r j
    by (simp add: 3 5)
qed

text \<open>
  Claim C4, as stated, fails: the claim has \<^verbatim>\<open>c[i] == a[i] + b[i]\<close> hold for every \<open>i\<close> in
  \<open>[0, count)\<close> after the launch, but the comparison is that of two doubles, and it is false
  when the sum is a NaN. With \<open>a[0] = +inf\<close> and \<open>b[0] = -inf\<close> the launch of the program
  (256 blocks of 256 threads, \<open>c\<close> apart from \<open>a\<close> and \<open>b\<close>) leaves a NaN in \<open>c[0]\<close>, and
  \<^verbatim>\<open>c[0] == a[0] + b[0]\<close> is false.
\<close>

theorem launch_NaN_counterexample:
  "restrict 0 65536 131072 count \<and> 0 < unat count
   \<and> snd (launch grid_order blocks_per_grid threads_per_block
             (vectorAddition 0 65536 131072 count) opposite_infinities) 0 = Infinity False
   \<and> snd (launch grid_order blocks_per_grid threads_per_block
             (vectorAddition 0 65536 131072 count) opposite_infinities) 65536 = Infinity True
   \<and> snd (launch grid_order blocks_per_grid threads_per_block
             (vectorAddition 0 65536 131072 count) opposite_infinities) 131072 = NaN
   \<and> \<not> feq (snd (launch grid_order blocks_per_grid threads_per_block
                   (vectorAddition 0 65536 131072 count) opposite_infinities) 131072)
            (fadd (snd (launch grid_order blocks_per_grid threads_per_block
                          (vectorAddition 0 65536 131072 count) opposite_infinities) 0)
                  (snd (launch grid_order blocks_per_grid threads_per_block
                          (vectorAddition 0 65536 131072 count) opposite_infinities) 65536))"
proof -
  have r: "restrict 0 65536 131072 count"
    by (simp add: restrict_def apart_def unat_count)
  have i: "0 < unat count"
    by (simp add: unat_count)
  have a: "snd (launch grid_order blocks_per_grid threads_per_block
      (vectorAddition 0 65536 131072 count) opposite_infinities) 0 = Infinity False"
    using launch_inputs [OF r i, where order = grid_order and mem = opposite_infinities]
    by (simp add: opposite_infinities_def)
  have b: "snd (launch grid_order blocks_per_grid threads_per_block
      (vectorAddition 0 65536 131072 count) opposite_infinities) 65536 = Infinity True"
    using launch_inputs [OF r i, where order = grid_order and mem = opposite_infinities]
    by (simp add: opposite_infinities_def)
  have c: "snd (launch grid_order blocks_per_grid threads_per_block
      (vectorAddition 0 65536 131072 count) opposite_infinities) 131072 = NaN"
    using launch_value [OF r i, where order = grid_order and mem = opposite_infinities]
    by (simp add: opposite_infinities_def)
  show ?thesis
    unfolding a b c using r i by simp
qed

text \<open>
  Claim C4, amended. With \<open>count = 65536\<close> and 256 threads per block, the ceiling division
  gives \<open>blocks_per_grid = 256\<close>, and \<open>blocks_per_grid * 256 >= count\<close>; the lanes of the grid
  are distinct, every index in \<open>[0, count)\<close> is the global index of exactly one lane, and
  distinct lanes have distinct global indices; so after the launch, in whatever order the
  lanes ran and with \<open>c\<close> apart from \<open>a\<close> and \<open>b\<close>, \<open>c[i]\<close> holds the double \<open>a[i] + b[i]\<close> for
  every \<open>i\<close> in \<open>[0, count)\<close>, with \<open>a\<close> and \<open>b\<close> as before the launch. The comparison
  \<^verbatim>\<open>c[i] == a[i] + b[i]\<close> is true exactly at the \<open>i\<close> where that sum is not a NaN: at every
  \<open>i\<close> where \<open>a[i]\<close> and \<open>b[i]\<close> are finite, and, for an infinite operand, unless the other
  is a NaN or the opposite infinity.
\<close>

theorem launch_covers_count:
  "blocks_per_grid = 256
   \<and> unat count \<le> unat blocks_per_grid * unat threads_per_block
   \<and> distinct (grid blocks_per_grid threads_per_block)
   \<and> (\<forall>i < unat count. \<exists>!l. l \<in> set (grid blocks_per_grid threads_per_block) \<and> unat (thread_id l) = i)
   \<and> (\<forall>l \<in> set (grid blocks_per_grid threads_per_block).
        \<forall>l' \<in> set (grid blocks_per_grid threads_per_block). thread_id l = thread_id l' \<longrightarrow> l = l')
   \<and> (restrict a b c count \<longrightarrow>
        (\<forall>i < unat count.
           snd (launch order blocks_per_grid threads_per_block (vectorAddition a b c count) mem) (c + i)
             = fadd (snd (launch order blocks_per_grid threads_per_block (vectorAddition a b c count) mem) (a + i))
                    (snd (launch order blocks_per_grid threads_per_block (vectorAddition a b c count) mem) (b + i))
           \<and> snd (launch order blocks_per_grid threads_per_block (vectorAddition a b c count) mem) (a + i)
               = mem (a + i)
           \<and> snd (launch order blocks_per_grid threads_per_block (vectorAddition a b c count) mem) (b + i)
               = mem (b + i)
           \<and> (feq (snd (launch order blocks_per_grid threads_per_block (vectorAddition a b c count) mem) (c + i))
                   (fadd (snd (launch order blocks_per_grid threads_per_block (vectorAddition a b c count) mem) (a + i))
                         (snd (launch order blocks_per_grid threads_per_block (vectorAddition a b c count) mem) (b + i)))
                \<longleftrightarrow> fadd (mem (a + i)) (mem (b + i)) \<noteq> NaN)
           \<and> (isfinite (mem (a + i)) \<and> isfinite (mem (b + i)) \<longrightarrow>
                feq (snd (launch order blocks_per_grid threads_per_block (vectorAddition a b c count) mem) (c + i))
                    (fadd (snd (launch order blocks_per_grid threads_per_block (vectorAddition a b c count) mem) (a + i))
                          (snd (launch order blocks_per_grid threads_per_block (vectorAddition a b c count) mem) (b + i))))))"
proof (intro conjI impI allI ballI)
  show "blocks_per_grid = 256"
    by (rule blocks_per_grid_eq)
  show "unat count \<le> unat blocks_per_grid * unat threads_per_block"
    by (simp add: blocks_per_grid_eq threads_per_block_def unat_count)
  show "distinct (grid blocks_per_grid threads_per_block)"
    by (simp add: blocks_per_grid_eq threads_per_block_def distinct_grid)
next
  fix i
  assume "i < unat count"
  then show "\<exists>!l. l \<in> set (grid blocks_per_grid threads_per_block) \<and> unat (thread_id l) = i"
    by (simp add: blocks_per_grid_eq threads_per_block_def unat_count grid_covers)
next
  fix l l'
  assume l: "l \<in> set (grid blocks_per_grid threads_per_block)"
    and l': "l' \<in> set (grid blocks_per_grid threads_per_block)"
    and eq: "thread_id l = thread_id l'"
  have "distinct (map (\<lambda>l. unat (thread_id l)) (grid 256 256))"
    by (simp add: thread_ids_grid)
  then have "inj_on (\<lambda>l. unat (thread_id l)) (set (grid 256 256))"
    by (simp add: distinct_map)
  then show "l = l'"
    using l l' eq by (simp add: blocks_per_grid_eq threads_per_block_def inj_on_def)
next
  fix i
  assume r: "restrict a b c count" and i: "i < unat count"
  show "snd (launch order blocks_per_grid threads_per_block (vectorAddition a b c count) mem) (c + i)
      = fadd (snd (launch order blocks_per_grid threads_per_block (vectorAddition a b c count) mem) (a + i))
             (snd (launch order blocks_per_grid threads_per_block (vectorAddition a b c count) mem) (b + i))"
    by (simp only: launch_value [OF r i] launch_inputs [OF r i])
  show "snd (launch order blocks_per_grid threads_per_block (vectorAddition a b c count) mem) (a + i)
      = mem (a + i)"
    by (rule launch_inputs [OF r i])
  show "snd (launch order blocks_per_grid threads_per_block (vectorAddition a b c count) mem) (b + i)
      = mem (b + i)"
    by (rule launch_inputs [OF r i])
  show "feq (snd (launch order blocks_per_grid threads_per_block (vectorAddition a b c count) mem) (c + i))
      (fadd (snd (launch order blocks_per_grid threads_per_block (vectorAddition a b c count) mem) (a + i))
            (snd (launch order blocks_per_grid threads_per_block (vectorAddition a b c count) mem) (b + i)))
    \<longleftrightarrow> fadd (mem (a + i)) (mem (b + i)) \<noteq> NaN"
    unfolding launch_value [OF r i] launch_inputs [OF r i] by (rule feq_self)
  assume "isfinite (mem (a + i)) \<and> isfinite (mem (b + i))"
  then have "fadd (mem (a + i)) (mem (b + i)) \<noteq> NaN"
    by (simp add: fadd_finite)
  then show "feq (snd (launch order blocks_per_grid threads_per_block (vectorAddition a b c count) mem) (c + i))
      (fadd (snd (launch order blocks_per_grid threads_per_block (vectorAddition a b c count) mem) (a + i))
            (snd (launch order blocks_per_grid threads_per_block (vectorAddition a b c count) mem) (b + i)))"
    unfolding launch_value [OF r i] launch_inputs [OF r i] by (simp add: feq_self)
qed

theorem launch_covers_count_witness:
  "ramp (131072 + 65535) = Finite False 196607
   \<and> snd (launch grid_order blocks_per_grid threads_per_block
             (vectorAddition 0 65536 131072 count) ramp) (0 + 65535) = Finite False 65535
   \<and> snd (launch grid_order blocks_per_grid threads_per_block
             (vectorAddition 0 65536 131072 count) ramp) (65536 + 65535) = Finite False 131071
   \<and> snd (launch grid_order blocks_per_grid threads_per_block
             (vectorAddition 0 65536 131072 count) ramp) (131072 + 65535) = Finite False 196606
   \<and> feq (snd (launch grid_order blocks_per_grid threads_per_block
                 (vectorAddition 0 65536 131072 count) ramp) (131072 + 65535))
          (fadd (snd (launch grid_order blocks_per_grid threads_per_block
                        (vectorAddition 0 65536 131072 count) ramp) (0 + 65535))
                (snd (launch grid_order blocks_per_grid threads_per_block
                        (vectorAddition 0 65536 131072 count) ramp) (65536 + 65535)))
   \<and> feq (snd (launch grid_order blocks_per_grid threads_per_block
                 (vectorAddition 0 65536 131072 count) opposite_infinities) (131072 + 7))
          (fadd (snd (launch grid_order blocks_per_grid threads_per_block
                        (vectorAddition 0 65536 131072 count) opposite_infinities) (0 + 7))
                (snd (launch grid_order blocks_per_grid threads_per_block
                        (vectorAddition 0 65536 131072 count) opposite_infinities) (65536 + 7)))
      = False"
proof -
  have r: "restrict 0 65536 131072 count"
    by (simp add: restrict_def apart_def unat_count)
  have i: "65535 < unat count" and j: "7 < unat count"
    by (simp_all add: unat_count)
  have sum: "fadd (Finite False 65535) (Finite False 131071) = Finite False 196606"
    by (simp add: sval_def fround_small del: One_nat_def)
  have finite: "isfinite (ramp (0 + 65535)) \<and> isfinite (ramp (65536 + 65535))"
    by (simp add: ramp_def)
  note busy = launch_covers_count [where a = 0 and b = 65536 and c = 131072
      and order = grid_order and mem = ramp,
      THEN conjunct2, THEN conjunct2, THEN conjunct2, THEN conjunct2, THEN conjunct2,
      rule_format, OF r i]
  note nan = launch_covers_count [where a = 0 and b = 65536 and c = 131072
      and order = grid_order and mem = opposite_infinities,
      THEN conjunct2, THEN conjunct2, THEN conjunct2, THEN conjunct2, THEN conjunct2,
      rule_format, OF r j]
  have a: "snd (launch grid_order blocks_per_grid threads_per_block
      (vectorAddition 0 65536 131072 count) ramp) (0 + 65535) = Finite False 65535"
    using busy by (simp add: ramp_def)
  have b: "snd (launch grid_order blocks_per_grid threads_per_block
      (vectorAddition 0 65536 131072 count) ramp) (65536 + 65535) = Finite False 131071"
    using busy by (simp add: ramp_def)
  have c: "snd (launch grid_order blocks_per_grid threads_per_block
      (vectorAddition 0 65536 131072 count) ramp) (131072 + 65535) = Finite False 196606"
    using busy [THEN conjunct1] unfolding a b sum .
  have e: "feq (snd (launch grid_order blocks_per_grid threads_per_block
        (vectorAddition 0 65536 131072 count) ramp) (131072 + 65535))
      (fadd (snd (launch grid_order blocks_per_grid threads_per_block
               (vectorAddition 0 65536 131072 count) ramp) (0 + 65535))
            (snd (launch grid_order blocks_per_grid threads_per_block
               (vectorAddition 0 65536 131072 count) ramp) (65536 + 65535)))"
    using busy finite by blast
  have n: "feq (snd (launch grid_order blocks_per_grid threads_per_block
        (vectorAddition 0 65536 131072 count) opposite_infinities) (131072 + 7))
      (fadd (snd (launch grid_order blocks_per_grid threads_per_block
               (vectorAddition 0 65536 131072 count) opposite_infinities) (0 + 7))
            (snd (launch grid_order blocks_per_grid threads_per_block
               (vectorAddition 0 65536 131072 count) opposite_infinities) (65536 + 7)))
      = False"
    using nan by (simp add: opposite_infinities_def)
  have "ramp (131072 + 65535) = Finite False 196607"
    by (simp add: ramp_def)
  then show ?thesis
    using a b c e n by (intro conjI)
qed

section \<open>Claims about the host program\<close>

text \<open>
  Claim C5. The validation loop calls
  \<^verbatim>\<open>isClose (host_a [i] + host_b [i], host_c [i], 1e-8, 1e-16)\<close> at the indices
  \<open>0, 1, ...\<close> in increasing order. When \<open>k\<close> is the first index at which \<^verbatim>\<open>isClose\<close> returns
  false, the indices checked are \<open>0, ..., k\<close> and no later one, and the run writes to standard
  error the one line \<^verbatim>\<open>Test failed at element k: expected=E;actual=A;.\<close> and exits with
  \<^verbatim>\<open>EXIT_FAILURE\<close>, which is not zero. In that line \<open>k\<close> is the index in decimal, \<open>E\<close> is
  the text \<^verbatim>\<open>printf\<close> gives for the sum \<open>host_a [k] + host_b [k]\<close> and \<open>A\<close> the text it gives
  for \<open>host_c [k]\<close>, both under \<^verbatim>\<open>%.*f\<close> with the precision \<^verbatim>\<open>DECIMAL_DIG\<close>; where one of the
  two is a NaN, its text carries the sign bit that NaN has in the run. When every element
  passes, all \<open>n\<close> indices were checked and the run goes on to release the buffers, the
  validation having written nothing. In a run of \<^verbatim>\<open>main\<close> whose earlier steps succeed, this
  loop runs over the \<open>count\<close> elements of the host vectors.
\<close>

theorem validation_first_mismatch:
  "(\<forall>k < n. (\<forall>i < k. close_at host_a host_b host_c i) \<and> \<not> close_at host_a host_b host_c k \<longrightarrow>
      validate n 0 host_a host_b host_c =
        ([0 ..< Suc k], Failed k (fadd (host_a ! k) (host_b ! k)) (host_c ! k))
      \<and> validation rt t n host_a host_b host_c =
          (t @ [Stderr (''Test failed at element '' @ printf_zu k
                  @ '': expected=''
                  @ printf_f rt (DECIMAL_DIG rt) (nan_sign_expected rt k)
                      (fadd (host_a ! k) (host_b ! k))
                  @ '';actual=''
                  @ printf_f rt (DECIMAL_DIG rt) (nan_sign_actual rt k) (host_c ! k)
                  @ '';.'' @ [newline])],
           Exit EXIT_FAILURE)
      \<and> EXIT_FAILURE \<noteq> 0)
   \<and> ((\<forall>i < n. close_at host_a host_b host_c i) \<longrightarrow>
        validate n 0 host_a host_b host_c = ([0 ..< n], Passed)
        \<and> validation rt t n host_a host_b host_c = release rt t)
   \<and> (transferred rt \<longrightarrow>
        main rt = validation rt before_validation (unat count)
                    (fst (host_inputs rt)) (snd (host_inputs rt)) (host_result rt))"
proof (intro conjI allI impI)
  fix k
  assume "k < n"
    and "(\<forall>i < k. close_at host_a host_b host_c i) \<and> \<not> close_at host_a host_b host_c k"
  then show v: "validate n 0 host_a host_b host_c =
      ([0 ..< Suc k], Failed k (fadd (host_a ! k) (host_b ! k)) (host_c ! k))"
    by (intro validate_failed) simp_all
  have "validation rt t n host_a host_b host_c =
      (t @ [Stderr (test_failed rt k (fadd (host_a ! k) (host_b ! k)) (host_c ! k))],
       Exit EXIT_FAILURE)"
    by (simp add: validation_def v fail_def)
  then show "validation rt t n host_a host_b host_c =
      (t @ [Stderr (''Test failed at element '' @ printf_zu k
              @ '': expected=''
              @ printf_f rt (DECIMAL_DIG rt) (nan_sign_expected rt k)
                  (fadd (host_a ! k) (host_b ! k))
              @ '';actual=''
              @ printf_f rt (DECIMAL_DIG rt) (nan_sign_actual rt k) (host_c ! k)
              @ '';.'' @ [newline])],
       Exit EXIT_FAILURE)"
    unfolding test_failed_def .
  show "EXIT_FAILURE \<noteq> 0"
    by (simp add: EXIT_FAILURE_def)
next
  assume "\<forall>i < n. close_at host_a host_b host_c i"
  then show v: "validate n 0 host_a host_b host_c = ([0 ..< n], Passed)"
    by (intro validate_passed) simp_all
  show "validation rt t n host_a host_b host_c = release rt t"
    by (simp add: validation_def v)
next
  assume "transferred rt"
  then show "main rt = validation rt before_validation (unat count)
      (fst (host_inputs rt)) (snd (host_inputs rt)) (host_result rt)"
    by (rule main_validation)
qed

theorem validation_first_mismatch_witness:
  "validate 2 0 [zero, zero] [zero, zero] [zero, Finite False (2 ^ 1075)]
     = ([0, 1], Failed 1 zero (Finite False (2 ^ 1075)))
   \<and> validation all_well [] 2 [zero, zero] [zero, zero] [zero, Finite False (2 ^ 1075)]
     = ([Stderr (''Test failed at element 1: expected=0.000000000000000000000''
                 @ '';actual=2.000000000000000000000;.'' @ [newline])], Exit 1)
   \<and> validate 1 0 [Infinity False] [Infinity True] [NaN] = ([0], Failed 0 NaN NaN)
   \<and> validation all_well [] 1 [Infinity False] [Infinity True] [NaN]
     = ([Stderr (''Test failed at element 0: expected=-nan;actual=nan;.'' @ [newline])], Exit 1)
   \<and> validate 2 0 [zero, zero] [zero, zero] [zero, zero] = ([0, 1], Passed)
   \<and> validation all_well [] 2 [zero, zero] [zero, zero] [zero, zero] = release all_well []
   \<and> main all_well = validation all_well before_validation (unat count)
        (fst (host_inputs all_well)) (snd (host_inputs all_well)) (host_result all_well)"
proof -
  have z: "fadd zero zero = zero"
    by (simp add: zero_def sval_def)
  have same: "isClose zero zero (literal 1 (10 ^ 8)) (literal 1 (10 ^ 16)) = Inr 1"
    by (intro isClose_same literal_nonneg) (simp add: zero_def)
  have far: "isClose zero (Finite False (2 ^ 1075)) (literal 1 (10 ^ 8)) (literal 1 (10 ^ 16)) = Inr 0"
    unfolding zero_def by (rule not_close_0_2)
  have nan: "isClose NaN NaN (literal 1 (10 ^ 8)) (literal 1 (10 ^ 16)) = Inr 0"
    using isClose_not_finite [of "literal 1 (10 ^ 8)" "literal 1 (10 ^ 16)" NaN NaN]
    by (simp add: literal_nonneg)
  have i: "fadd (Infinity False) (Infinity True) = NaN"
    by simp
  have nth: "[zero, zero] ! 0 = zero" "[zero, zero] ! 1 = zero"
    "[zero, Finite False (2 ^ 1075)] ! 0 = zero"
    "[zero, Finite False (2 ^ 1075)] ! 1 = Finite False (2 ^ 1075)"
    "[Infinity False] ! 0 = Infinity False" "[Infinity True] ! 0 = Infinity True"
    "[NaN] ! 0 = NaN"
    by simp_all
  have 0: "close_at [zero, zero] [zero, zero] [zero, Finite False (2 ^ 1075)] 0"
    unfolding close_at_def nth z by (rule same)
  have 1: "\<not> close_at [zero, zero] [zero, zero] [zero, Finite False (2 ^ 1075)] 1"
    unfolding close_at_def nth z far by simp
  have first: "(\<forall>i < 1. close_at [zero, zero] [zero, zero] [zero, Finite False (2 ^ 1075)] i)
      \<and> \<not> close_at [zero, zero] [zero, zero] [zero, Finite False (2 ^ 1075)] 1"
    using 0 1 by simp
  have "\<not> close_at [Infinity False] [Infinity True] [NaN] 0"
    unfolding close_at_def nth i nan by simp
  then have nans: "(\<forall>i < 0. close_at [Infinity False] [Infinity True] [NaN] i)
      \<and> \<not> close_at [Infinity False] [Infinity True] [NaN] 0"
    by simp
  have "close_at [zero, zero] [zero, zero] [zero, zero] 0"
    and "close_at [zero, zero] [zero, zero] [zero, zero] 1"
    unfolding close_at_def nth z by (rule same)+
  then have all: "\<forall>i < 2. close_at [zero, zero] [zero, zero] [zero, zero] i"
    by (simp add: less_2_cases_iff)
  have t: "transferred all_well"
    by (simp add: transferred_def all_well_def)
  have lt: "(1::nat) < 2" "(0::nat) < 1"
    by simp_all
  have rt: "printf_f all_well = printf_fixed" "DECIMAL_DIG all_well = 21"
    "nan_sign_expected all_well = (\<lambda>i. True)" "nan_sign_actual all_well = (\<lambda>i. False)"
    by (simp_all add: all_well_def)
  have shown: "printf_fixed 21 True zero = ''0.000000000000000000000''"
    "printf_fixed 21 False (Finite False (2 ^ 1075)) = ''2.000000000000000000000''"
    "printf_fixed 21 True NaN = ''-nan''" "printf_fixed 21 False NaN = ''nan''"
    "printf_zu 0 = ''0''" "printf_zu 1 = ''1''"
    unfolding zero_def
    by (simp_all only: printf_fixed_0 printf_fixed_2 printf_fixed_NaN printf_zu_0 printf_zu_1
        if_True if_False)
  note mismatch = validation_first_mismatch [where n = 2 and host_a = "[zero, zero]"
      and host_b = "[zero, zero]" and host_c = "[zero, Finite False (2 ^ 1075)]"
      and rt = all_well and t = "[]"]
  note not_a_number = validation_first_mismatch [where n = 1 and host_a = "[Infinity False]"
      and host_b = "[Infinity True]" and host_c = "[NaN]" and rt = all_well and t = "[]"]
  note passed = validation_first_mismatch [where n = 2 and host_a = "[zero, zero]"
      and host_b = "[zero, zero]" and host_c = "[zero, zero]" and rt = all_well and t = "[]"]
  note m = mismatch [THEN conjunct1, rule_format, OF lt(1) first, unfolded nth z rt shown]
  note n = not_a_number [THEN conjunct1, rule_format, OF lt(2) nans, unfolded nth i rt shown]
  from m n passed [THEN conjunct2, THEN conjunct1, rule_format, OF all [rule_format]]
    passed [THEN conjunct2, THEN conjunct2, rule_format, OF t]
  show ?thesis
    by (simp add: EXIT_FAILURE_def upt_conv_Cons)
qed

text \<open>
  Claim C6. On a fully successful run (every call succeeds and every element passes the
  validation) the program writes the single line \<^verbatim>\<open>Done.\<close> to standard output, nothing to
  standard error, and exits with status zero. On every other run, whatever fails (a host
  allocation, a device allocation, a transfer, the kernel launch, the validation or a device
  free), it exits with \<^verbatim>\<open>EXIT_FAILURE\<close>, which is not zero, writes nothing to standard
  output, and writes one diagnostic to standard error: a text that ends with a newline and
  holds no other newline (given that the description of the error and the text of a
  \<^verbatim>\<open>double\<close> hold none).
\<close>

theorem main_outcome:
  "(successful rt \<longrightarrow>
      snd (main rt) = Exit EXIT_SUCCESS \<and> EXIT_SUCCESS = 0
      \<and> stdout (fst (main rt)) = [''Done.'' @ [newline]] \<and> stderr (fst (main rt)) = [])
   \<and> (\<not> successful rt \<longrightarrow>
        snd (main rt) = Exit EXIT_FAILURE \<and> EXIT_FAILURE \<noteq> 0
        \<and> stdout (fst (main rt)) = []
        \<and> (\<exists>m. stderr (fst (main rt)) = [m] \<and> m \<noteq> [] \<and> last m = newline
               \<and> (plain_texts rt \<longrightarrow> newline \<notin> set (butlast m))))"
proof (intro conjI impI)
  assume s: "successful rt"
  then have "main rt = (before_validation @ [CudaFree A, CudaFree B, CudaFree C,
      Free A, Free B, Free C, Stdout done_message], Exit EXIT_SUCCESS)"
    by (simp add: successful_def main_computed release_success)
  then show "snd (main rt) = Exit EXIT_SUCCESS"
    and "stdout (fst (main rt)) = [''Done.'' @ [newline]]"
    and "stderr (fst (main rt)) = []"
    by (simp_all add: before_validation_def done_message_def)
  show "EXIT_SUCCESS = 0"
    by (simp add: EXIT_SUCCESS_def)
next
  assume n: "\<not> successful rt"
  have "failure rt (main rt)"
  proof (cases "transferred rt")
    case False
    then show ?thesis by (simp add: main_not_transferred)
  next
    case t: True
    show ?thesis
    proof (cases "validated rt")
      case False
      with t show ?thesis by (simp add: main_not_validated)
    next
      case True
      with t have c: "computed rt" by (simp add: computed_def)
      with n show ?thesis
        by (simp add: successful_def main_computed release_failure quiet_before_validation)
    qed
  qed
  then show "snd (main rt) = Exit EXIT_FAILURE"
    and "stdout (fst (main rt)) = []"
    and "\<exists>m. stderr (fst (main rt)) = [m] \<and> m \<noteq> [] \<and> last m = newline
      \<and> (plain_texts rt \<longrightarrow> newline \<notin> set (butlast m))"
    by (simp_all add: failure_def diagnostic_line_def)
  show "EXIT_FAILURE \<noteq> 0"
    by (simp add: EXIT_FAILURE_def)
qed

theorem main_outcome_witness:
  "snd (main all_well) = Exit 0
   \<and> stdout (fst (main all_well)) = [''Done.'' @ [newline]]
   \<and> stderr (fst (main all_well)) = []
   \<and> snd (main (all_well \<lparr>malloc_ok := (\<lambda>v. v = A)\<rparr>)) = Exit 1
   \<and> stdout (fst (main (all_well \<lparr>malloc_ok := (\<lambda>v. v = A)\<rparr>))) = []
   \<and> (\<exists>m. stderr (fst (main (all_well \<lparr>malloc_ok := (\<lambda>v. v = A)\<rparr>))) = [m]
          \<and> last m = newline \<and> newline \<notin> set (butlast m))"
proof -
  have n: "\<not> successful (all_well \<lparr>malloc_ok := (\<lambda>v. v = A)\<rparr>)"
    by (simp add: successful_def computed_def transferred_def)
  have p: "plain_texts (all_well \<lparr>malloc_ok := (\<lambda>v. v = A)\<rparr>)"
    using plain_texts_all_well by (simp add: plain_texts_def)
  show ?thesis
    using main_outcome [of all_well] successful_all_well
      main_outcome [of "all_well \<lparr>malloc_ok := (\<lambda>v. v = A)\<rparr>"] n p
    by (auto simp: EXIT_SUCCESS_def EXIT_FAILURE_def)
qed

text \<open>
  Claim C7. If \<^verbatim>\<open>cudaMalloc\<close> for the device vector \<open>b\<close> fails (the earlier allocations
  having succeeded), the run is: the three \<^verbatim>\<open>malloc\<close>, \<^verbatim>\<open>cudaMalloc\<close> for \<open>a\<close>,
  \<^verbatim>\<open>cudaMalloc\<close> for \<open>b\<close>, and the diagnostic, which names vector \<^verbatim>\<open>`b'\<close>; the program exits
  with a non-zero status and no kernel is launched.
\<close>

theorem device_b_allocation_failure:
  assumes "malloc_ok rt A" and "malloc_ok rt B" and "malloc_ok rt C"
    and "cudaMalloc_result rt A = cudaSuccess" and "cudaMalloc_result rt B \<noteq> cudaSuccess"
  shows "main rt = ([Malloc A, Malloc B, Malloc C, CudaMalloc A, CudaMalloc B,
                     Stderr (device_alloc_error rt B)], Exit EXIT_FAILURE)
         \<and> EXIT_FAILURE \<noteq> 0
         \<and> stderr (fst (main rt)) =
             [''Error: couldn't allocate memory for device vector `b' (524288 bytes): ''
                @ cudaGetErrorString rt (cudaMalloc_result rt B) @ ''.'' @ [newline]]
         \<and> (\<forall>e \<in> set (fst (main rt)). \<not> is_launch e)"
proof -
  have m: "main rt = ([Malloc A, Malloc B, Malloc C, CudaMalloc A, CudaMalloc B,
      Stderr (device_alloc_error rt B)], Exit EXIT_FAILURE)"
    using assms by (simp add: main_def fail_def)
  have "printf_zu (unat bytes) = ''524288''"
    by (simp add: bytes_def count_def printf_zu.simps)
  then have "device_alloc_error rt B =
      ''Error: couldn't allocate memory for device vector `b' (524288 bytes): ''
        @ cudaGetErrorString rt (cudaMalloc_result rt B) @ ''.'' @ [newline]"
    by (simp add: device_alloc_error_def)
  then show ?thesis
    by (simp add: m EXIT_FAILURE_def)
qed

theorem device_b_allocation_failure_witness:
  "snd (main (all_well \<lparr>cudaMalloc_result := (\<lambda>v. if v = B then 2 else cudaSuccess)\<rparr>)) = Exit 1
   \<and> stderr (fst (main (all_well \<lparr>cudaMalloc_result := (\<lambda>v. if v = B then 2 else cudaSuccess)\<rparr>)))
       = [''Error: couldn't allocate memory for device vector `b' (524288 bytes): ''
            @ ''out of memory.'' @ [newline]]
   \<and> filter is_launch
         (fst (main (all_well \<lparr>cudaMalloc_result := (\<lambda>v. if v = B then 2 else cudaSuccess)\<rparr>)))
       = []"
proof -
  let ?rt = "all_well \<lparr>cudaMalloc_result := (\<lambda>v. if v = B then 2 else cudaSuccess)\<rparr>"
  have "malloc_ok ?rt A" "malloc_ok ?rt B" "malloc_ok ?rt C"
    "cudaMalloc_result ?rt A = cudaSuccess" "cudaMalloc_result ?rt B \<noteq> cudaSuccess"
    by (simp_all add: all_well_def cudaSuccess_def)
  note fails = device_b_allocation_failure [OF this]
  have s: "cudaGetErrorString all_well e = ''out of memory''" for e
    by (simp add: all_well_def)
  have "snd (main ?rt) = Exit 1"
    by (simp add: fails [THEN conjunct1] EXIT_FAILURE_def)
  moreover have "stderr (fst (main ?rt)) =
      [''Error: couldn't allocate memory for device vector `b' (524288 bytes): ''
         @ ''out of memory.'' @ [newline]]"
    using fails [THEN conjunct2, THEN conjunct2, THEN conjunct1] by (simp add: s)
  moreover have "filter is_launch (fst (main ?rt)) = []"
    using fails [THEN conjunct2, THEN conjunct2, THEN conjunct2]
    by (simp only: filter_empty_conv)
  ultimately show ?thesis
    by blast
qed

text \<open>
  Claim C8. In a run where the device vector \<open>a\<close> has been allocated and a later step before
  the release of the buffers fails (a later device allocation, a transfer, the kernel, or
  the validation), the program exits with a non-zero status without having called
  \<^verbatim>\<open>cudaFree\<close> or \<^verbatim>\<open>free\<close> on any buffer.
\<close>

theorem no_cleanup_on_failure:
  assumes "malloc_ok rt A" and "malloc_ok rt B" and "malloc_ok rt C"
    and "cudaMalloc_result rt A = cudaSuccess"
    and "\<not> computed rt"
  shows "snd (main rt) = Exit EXIT_FAILURE \<and> EXIT_FAILURE \<noteq> 0
         \<and> CudaMalloc A \<in> set (fst (main rt))
         \<and> (\<forall>e \<in> set (fst (main rt)). \<not> is_free e)
         \<and> (\<forall>v. CudaFree v \<notin> set (fst (main rt)) \<and> Free v \<notin> set (fst (main rt)))"
proof -
  have f: "failure rt (main rt) \<and> (\<forall>e \<in> set (fst (main rt)). \<not> is_free e)"
    using assms(5) main_not_transferred [of rt] main_not_validated [of rt]
    by (auto simp: computed_def)
  have a: "CudaMalloc A \<in> set (fst (main rt))"
  proof (cases "transferred rt")
    case False
    with assms(1-4) show ?thesis
      by (auto simp: transferred_def main_def Let_def split_def fail_def)
  next
    case True
    with assms(5) have v: "\<not> validated rt" by (simp add: computed_def)
    let ?ha = "fst (host_inputs rt)" and ?hb = "snd (host_inputs rt)" and ?hc = "host_result rt"
    obtain i x y where "snd (validate (unat count) 0 ?ha ?hb ?hc) = Failed i x y"
      using v validate_not_asserted [of "unat count" 0 ?ha ?hb ?hc]
      by (cases "snd (validate (unat count) 0 ?ha ?hb ?hc)") (auto simp: validated_def)
    then show ?thesis
      using True by (simp add: main_validation validation_def fail_def before_validation_def)
  qed
  have "\<not> is_free e \<Longrightarrow> e \<noteq> CudaFree v \<and> e \<noteq> Free v" for e v
    by auto
  with f have "CudaFree v \<notin> set (fst (main rt)) \<and> Free v \<notin> set (fst (main rt))" for v
    by blast
  with f a show ?thesis
    by (simp add: failure_def EXIT_FAILURE_def)
qed

theorem no_cleanup_on_failure_witness:
  "snd (main (all_well \<lparr>kernel_result := 700\<rparr>)) = Exit 1
   \<and> filter is_free (fst (main (all_well \<lparr>kernel_result := 700\<rparr>))) = []
   \<and> filter is_launch (fst (main (all_well \<lparr>kernel_result := 700\<rparr>)))
       = [Launch 256 256]"
proof -
  let ?rt = "all_well \<lparr>kernel_result := 700\<rparr>"
  have a: "malloc_ok ?rt A" "malloc_ok ?rt B" "malloc_ok ?rt C"
    "cudaMalloc_result ?rt A = cudaSuccess"
    by (simp_all add: all_well_def)
  have c: "\<not> computed ?rt"
    by (simp add: computed_def transferred_def all_well_def cudaSuccess_def)
  have l: "filter is_launch (fst (main ?rt)) = [Launch 256 256]"
    by (simp add: main_def all_well_def cudaSuccess_def fail_def split_def
        blocks_per_grid_eq threads_per_block_def)
  from no_cleanup_on_failure [OF a c] l show ?thesis
    by (simp add: EXIT_FAILURE_def filter_empty_conv)
qed


end
